theory Spec2Isabelle
  imports Complex_Main "HOL-Library.Word"
begin

section \<open>The live voice-call pipeline of the SLIM dashboard\<close>

text \<open>
  The repository holds two copies of the voice-call component: the page
  \<^verbatim>\<open>frontend-react/src/pages/VoiceAgent.jsx\<close> and the stand-alone application
  \<^verbatim>\<open>App\<close> (file \<^verbatim>\<open>unnamed/part_002\<close>). Definitions taken from the page keep the
  source's names; definitions taken from the application carry the prefix \<open>App_\<close>.
  Code that is the same text in both files is modelled once.
\<close>

subsection \<open>Audio utility functions\<close>

text \<open>
  A \<^verbatim>\<open>Uint8Array\<close> is a list of 8-bit words, an \<^verbatim>\<open>Int16Array\<close> a list of 16-bit
  words (read as signed by \<open>sint\<close>). A JavaScript string is the list of its UTF-16
  code units, each a natural number below 65536. Audio samples are real numbers:
  every operation the codec performs on them (multiplying by \<open>2^15\<close>, truncating,
  dividing a 16-bit integer by \<open>2^15\<close>) is exact in binary floating point. The
  functions are those of the page; the application imports functions of the same
  names from \<^verbatim>\<open>utils/audioUtils\<close> and is taken to run the same code.
\<close>

type_synonym byte = "8 word"
type_synonym int16 = "16 word"
type_synonym js_string = "nat list"

datatype js_error =
  InvalidCharacterError | RangeError | NotSupportedError | IndexSizeError | InvalidStateError
  | Error

text \<open>\<^verbatim>\<open>String.fromCharCode(n)\<close> keeps the low 16 bits of its argument.\<close>

definition fromCharCode :: "nat \<Rightarrow> nat" where
  "fromCharCode n = n mod 65536"

text \<open>
  The browser's \<^verbatim>\<open>btoa\<close> and \<^verbatim>\<open>atob\<close>, as the HTML standard defines them
  (forgiving-base64 encode and decode over the alphabet of RFC 4648). A sextet is a
  number below 64; \<open>b64_code\<close> gives the code unit of its alphabet character.
\<close>

definition b64_code :: "nat \<Rightarrow> nat" where
  "b64_code i =
     (if i < 26 then 65 + i
      else if i < 52 then 97 + (i - 26)
      else if i < 62 then 48 + (i - 52)
      else if i = 62 then 43
      else 47)"

definition b64_sextet :: "nat \<Rightarrow> nat option" where
  "b64_sextet c =
     (if 65 \<le> c \<and> c \<le> 90 then Some (c - 65)
      else if 97 \<le> c \<and> c \<le> 122 then Some (c - 71)
      else if 48 \<le> c \<and> c \<le> 57 then Some (c + 4)
      else if c = 43 then Some 62
      else if c = 47 then Some 63
      else None)"

fun b64_sextets :: "nat list \<Rightarrow> nat list" where
  "b64_sextets [] = []"
| "b64_sextets [a] = [a div 4, (a mod 4) * 16]"
| "b64_sextets [a, b] = [a div 4, (a mod 4) * 16 + b div 16, (b mod 16) * 4]"
| "b64_sextets (a # b # c # rest) =
     [a div 4, (a mod 4) * 16 + b div 16, (b mod 16) * 4 + c div 64, c mod 64]
       @ b64_sextets rest"

definition b64_padding :: "nat \<Rightarrow> nat list" where
  "b64_padding n = replicate ((3 - n mod 3) mod 3) 61"

definition btoa :: "js_string \<Rightarrow> js_error + js_string" where
  "btoa s =
     (if \<exists>c \<in> set s. 255 < c then Inl InvalidCharacterError
      else Inr (map b64_code (b64_sextets s) @ b64_padding (length s)))"

definition is_ascii_whitespace :: "nat \<Rightarrow> bool" where
  "is_ascii_whitespace c \<longleftrightarrow> c = 9 \<or> c = 10 \<or> c = 12 \<or> c = 13 \<or> c = 32"

text \<open>
  If the length is a multiple of four, one or two trailing \<^verbatim>\<open>=\<close> (code unit 61)
  are removed.
\<close>

definition remove_padding :: "nat list \<Rightarrow> nat list" where
  "remove_padding d =
     (if length d mod 4 = 0 then
        (case rev d of
           c1 # c2 # r \<Rightarrow>
             if c1 = 61 \<and> c2 = 61 then rev r else if c1 = 61 then rev (c2 # r) else d
         | [c1] \<Rightarrow> if c1 = 61 then [] else d
         | [] \<Rightarrow> d)
      else d)"

fun b64_octets :: "nat list \<Rightarrow> nat list" where
  "b64_octets (c1 # c2 # c3 # c4 # rest) =
     [c1 * 4 + c2 div 16, (c2 mod 16) * 16 + c3 div 4, (c3 mod 4) * 64 + c4]
       @ b64_octets rest"
| "b64_octets [c1, c2, c3] = [c1 * 4 + c2 div 16, (c2 mod 16) * 16 + c3 div 4]"
| "b64_octets [c1, c2] = [c1 * 4 + c2 div 16]"
| "b64_octets [c1] = []"
| "b64_octets [] = []"

definition atob :: "js_string \<Rightarrow> js_error + js_string" where
  "atob s =
     (let d = remove_padding (filter (\<lambda>c. \<not> is_ascii_whitespace c) s) in
      if length d mod 4 = 1 then Inl InvalidCharacterError
      else case those (map b64_sextet d) of
             None \<Rightarrow> Inl InvalidCharacterError
           | Some sx \<Rightarrow> Inr (b64_octets sx))"

text \<open>
  \<^verbatim>\<open>decode(base64)\<close>: \<^verbatim>\<open>atob\<close>, then each code unit is stored into a
  \<^verbatim>\<open>Uint8Array\<close> (the store keeps the low 8 bits).
\<close>

definition decode :: "js_string \<Rightarrow> js_error + byte list" where
  "decode base64 =
     (case atob base64 of
        Inl e \<Rightarrow> Inl e
      | Inr binaryString \<Rightarrow> Inr (map (\<lambda>c. (of_nat c :: byte)) binaryString))"

text \<open>
  \<^verbatim>\<open>encode(bytes)\<close>: the loop appends \<^verbatim>\<open>String.fromCharCode(bytes[i])\<close> to
  \<^verbatim>\<open>binary\<close> for every index, then \<^verbatim>\<open>btoa\<close>.
\<close>

definition encode :: "byte list \<Rightarrow> js_error + js_string" where
  "encode bytes =
     btoa (foldl (\<lambda>binary b. binary @ [fromCharCode (unat b)]) [] bytes)"

text \<open>
  Storing a number into an \<^verbatim>\<open>Int16Array\<close> applies the conversion \<^verbatim>\<open>ToInt16\<close>:
  the number is truncated towards zero and reduced modulo \<open>2^16\<close>.
\<close>

definition truncate_number :: "real \<Rightarrow> int" where
  "truncate_number x = (if 0 \<le> x then \<lfloor>x\<rfloor> else \<lceil>x\<rceil>)"

definition ToInt16 :: "real \<Rightarrow> int16" where
  "ToInt16 x = word_of_int (truncate_number x)"

text \<open>
  \<^verbatim>\<open>new Uint8Array(int16.buffer)\<close> and \<^verbatim>\<open>new Int16Array(data.buffer)\<close> view the same
  memory; each 16-bit element is two bytes, low byte first. An \<^verbatim>\<open>Int16Array\<close> over
  a buffer of odd length raises \<^verbatim>\<open>RangeError\<close>.
\<close>

definition int16_bytes :: "int16 \<Rightarrow> byte list" where
  "int16_bytes w = [of_nat (unat w mod 256), of_nat (unat w div 256)]"

fun Int16Array_of_bytes :: "byte list \<Rightarrow> js_error + int16 list" where
  "Int16Array_of_bytes [] = Inr []"
| "Int16Array_of_bytes [b] = Inl RangeError"
| "Int16Array_of_bytes (lo # hi # rest) =
     (case Int16Array_of_bytes rest of
        Inl e \<Rightarrow> Inl e
      | Inr ws \<Rightarrow> Inr (of_nat (unat lo + 256 * unat hi) # ws))"

record pcm_blob =
  data :: js_string
  mimeType :: string

text \<open>\<^verbatim>\<open>createPcmBlob(data)\<close>: \<^verbatim>\<open>int16[i] = data[i] * 32768\<close> for every index.\<close>

definition createPcmBlob :: "real list \<Rightarrow> js_error + pcm_blob" where
  "createPcmBlob samples =
     (let int16 = map (\<lambda>x. ToInt16 (x * 32768)) samples in
      case encode (concat (map int16_bytes int16)) of
        Inl e \<Rightarrow> Inl e
      | Inr s \<Rightarrow> Inr \<lparr>data = s, mimeType = ''audio/pcm;rate=16000''\<rparr>)"

text \<open>
  An \<^verbatim>\<open>AudioBuffer\<close>: \<open>frames\<close> is its length in sample frames. \<^verbatim>\<open>createBuffer\<close>
  raises \<^verbatim>\<open>NotSupportedError\<close> for zero channels or zero frames.
\<close>

record audio_buffer =
  numberOfChannels :: nat
  frames :: nat
  sampleRate :: nat
  channelData :: "real list list"

definition duration :: "audio_buffer \<Rightarrow> real" where
  "duration buffer = real (frames buffer) / real (sampleRate buffer)"

definition getChannelData :: "audio_buffer \<Rightarrow> nat \<Rightarrow> js_error + real list" where
  "getChannelData buffer channel =
     (if channel < length (channelData buffer) then Inr (channelData buffer ! channel)
      else Inl IndexSizeError)"

text \<open>
  \<^verbatim>\<open>decodeAudioData(data, ctx, sampleRate, numChannels)\<close>:
  \<^verbatim>\<open>channelData[i] = dataInt16[i * numChannels + channel] / 32768.0\<close>.
\<close>

definition decodeAudioData :: "byte list \<Rightarrow> nat \<Rightarrow> nat \<Rightarrow> js_error + audio_buffer" where
  "decodeAudioData bytes rate numChannels =
     (case Int16Array_of_bytes bytes of
        Inl e \<Rightarrow> Inl e
      | Inr dataInt16 \<Rightarrow>
          (let frameCount = length dataInt16 div numChannels in
           if numChannels = 0 \<or> frameCount = 0 then Inl NotSupportedError
           else Inr \<lparr>numberOfChannels = numChannels, frames = frameCount, sampleRate = rate,
                  channelData =
                    map (\<lambda>channel.
                      map (\<lambda>i. real_of_int (sint (dataInt16 ! (i * numChannels + channel))) / 32768)
                        [0..<frameCount])
                    [0..<numChannels]\<rparr>))"

text \<open>
  What \<^verbatim>\<open>onmessage\<close> does with an audio payload before scheduling it:
  \<^verbatim>\<open>decode(base64Audio)\<close>, then \<^verbatim>\<open>decodeAudioData(audioBytes, outputCtx, 24000, 1)\<close>.
\<close>

definition decodeChunk :: "js_string \<Rightarrow> js_error + audio_buffer" where
  "decodeChunk base64Audio =
     (case decode base64Audio of
        Inl e \<Rightarrow> Inl e
      | Inr audioBytes \<Rightarrow> decodeAudioData audioBytes 24000 1)"

text \<open>
  The capture side followed by the playback side, as the two ends of a call run them:
  \<^verbatim>\<open>createPcmBlob\<close> on a frame of samples, then the decoding of its payload,
  returning the samples of channel 0.
\<close>

definition pcm_roundtrip :: "real list \<Rightarrow> js_error + real list" where
  "pcm_roundtrip samples =
     (case createPcmBlob samples of
        Inl e \<Rightarrow> Inl e
      | Inr pcmBlob \<Rightarrow>
          (case decodeChunk (data pcmBlob) of
             Inl e \<Rightarrow> Inl e
           | Inr buffer \<Rightarrow> getChannelData buffer 0))"

subsection \<open>The state of the call component\<close>

datatype CallStatus = IDLE | CONNECTING | ACTIVE | ENDED | ERROR

datatype role = User | Model

text \<open>
  A transcript entry \<^verbatim>\<open>{role, text, timestamp}\<close>; the page names the last field
  \<^verbatim>\<open>time\<close>.
\<close>

record TranscriptionEntry =
  role :: role
  entry_text :: string
  timestamp :: nat

text \<open>
  An \<^verbatim>\<open>AudioBufferSourceNode\<close>, identified by the order of its creation.
  Its \<^verbatim>\<open>stop()\<close> raises \<^verbatim>\<open>InvalidStateError\<close> when \<^verbatim>\<open>start()\<close> has not been called.
\<close>

record source_node =
  node :: nat
  started :: bool

text \<open>
  What lies outside the component: every call of \<^verbatim>\<open>ai.live.connect\<close> creates a
  session, identified by the order of the calls, which is pending until the transport
  opens, live while it is open, closing once \<^verbatim>\<open>close()\<close> has been called on it and
  closed after its close event. The callbacks given to \<^verbatim>\<open>connect\<close> are closures
  of one run of \<^verbatim>\<open>startCall\<close>; \<open>closure_isMuted\<close> is the value of the state
  variable \<^verbatim>\<open>isMuted\<close> in the render whose \<^verbatim>\<open>startCall\<close> made the call, which is
  the value those closures see under that name.
\<close>

datatype phase = Pending | Live | Closing | Closed

record session =
  phase :: phase
  closure_isMuted :: bool

text \<open>The calls the component makes on the transport and on the audio system.\<close>

datatype call =
    Connect
  | SessionClose nat
  | ContextClose nat
  | SourceStart nat real
  | SourceStop nat
  | SendRealtimeInput nat pcm_blob

record transcription =
  user :: string
  model :: string

record component =
  status :: CallStatus
  transcriptions :: "TranscriptionEntry list"
  isMuted :: bool
  isModelSpeaking :: bool
  error :: string
  sessionRef :: "nat option"
  inputAudioCtxRef :: "nat option"
  outputAudioCtxRef :: "nat option"
  nextStartTimeRef :: real
  sourcesRef :: "source_node list"
  isMutedRef :: bool
  transcriptionRef :: transcription
  sessions :: "session list"
  contexts :: nat
  nodes :: nat
  timers :: nat
  calls :: "call list"
  rejections :: "js_error list"
  faulty :: "nat set"

text \<open>
  The fields up to \<open>transcriptionRef\<close> are the component's state variables and refs
  (\<open>error\<close> and \<open>isMutedRef\<close> exist in the page only, \<open>transcriptionRef\<close> in the
  application only). The others record the environment: the sessions requested, the
  numbers of audio contexts and source nodes created, the timeouts pending, the calls
  made so far, the exceptions that left a handler, and the sessions whose
  \<^verbatim>\<open>close()\<close> raises when it is called (the component cannot tell them from the
  others).
\<close>

definition initial :: component where
  "initial =
     \<lparr>status = IDLE, transcriptions = [], isMuted = False, isModelSpeaking = False,
      error = [], sessionRef = None, inputAudioCtxRef = None, outputAudioCtxRef = None,
      nextStartTimeRef = 0, sourcesRef = [], isMutedRef = False,
      transcriptionRef = \<lparr>user = [], model = []\<rparr>,
      sessions = [], contexts = 0, nodes = 0, timers = 0, calls = [], rejections = [],
      faulty = {}\<rparr>"

subsection \<open>Teardown\<close>

definition stop :: "source_node \<Rightarrow> call list \<Rightarrow> js_error + call list" where
  "stop source cs =
     (if started source then Inr (cs @ [SourceStop (node source)])
      else Inl InvalidStateError)"

text \<open>\<^verbatim>\<open>try { source.stop(); } catch (e) {}\<close>\<close>

definition try_stop :: "call list \<Rightarrow> source_node \<Rightarrow> call list" where
  "try_stop cs source = (case stop source cs of Inl e \<Rightarrow> cs | Inr cs' \<Rightarrow> cs')"

text \<open>\<^verbatim>\<open>sourcesRef.current.forEach(...)\<close> followed by \<^verbatim>\<open>sourcesRef.current.clear()\<close>\<close>

definition stop_sources :: "component \<Rightarrow> component" where
  "stop_sources s = s\<lparr>calls := foldl try_stop (calls s) (sourcesRef s), sourcesRef := []\<rparr>"

text \<open>
  \<^verbatim>\<open>session.close()\<close> closes the socket of a session that is pending or live and
  does nothing on a socket that is closing or closed. It is a call into the SDK:
  on a session of \<open>faulty\<close> it raises, and closes nothing.
\<close>

definition session_close :: "nat \<Rightarrow> component \<Rightarrow> js_error + component" where
  "session_close sid s =
     (if sid \<in> faulty s then Inl Error
      else Inr (s\<lparr>calls := calls s @ [SessionClose sid],
                  sessions :=
                    (if sid < length (sessions s) \<and> phase (sessions s ! sid) \<in> {Pending, Live}
                     then (sessions s)[sid := (sessions s ! sid)\<lparr>phase := Closing\<rparr>]
                     else sessions s)\<rparr>))"

text \<open>
  The four release steps of \<^verbatim>\<open>cleanupCall\<close>, the same text in both files. The
  first, \<^verbatim>\<open>if (sessionRef.current) { sessionRef.current.close(); sessionRef.current = null; }\<close>,
  is guarded against an absent session only: an exception of \<^verbatim>\<open>close()\<close> leaves
  \<^verbatim>\<open>cleanupCall\<close> there, before the ref is cleared. The stop of the sources is inside
  \<^verbatim>\<open>try\<close> and \<^verbatim>\<open>catch\<close>, and the promise that \<^verbatim>\<open>close()\<close> of an audio context
  returns has its rejection swallowed by \<^verbatim>\<open>.catch(() => {})\<close>.
\<close>

definition release_session :: "component \<Rightarrow> js_error + component" where
  "release_session s =
     (case sessionRef s of
        Some sid \<Rightarrow>
          (case session_close sid s of
             Inl e \<Rightarrow> Inl e
           | Inr s' \<Rightarrow> Inr (s'\<lparr>sessionRef := None\<rparr>))
      | None \<Rightarrow> Inr s)"

definition release_audio :: "component \<Rightarrow> component" where
  "release_audio s1 =
     (let s2 = stop_sources s1;
          s3 = (case inputAudioCtxRef s2 of
                  Some c \<Rightarrow> s2\<lparr>calls := calls s2 @ [ContextClose c], inputAudioCtxRef := None\<rparr>
                | None \<Rightarrow> s2)
      in (case outputAudioCtxRef s3 of
            Some c \<Rightarrow> s3\<lparr>calls := calls s3 @ [ContextClose c], outputAudioCtxRef := None\<rparr>
          | None \<Rightarrow> s3))"

definition release :: "component \<Rightarrow> js_error + component" where
  "release s =
     (case release_session s of
        Inl e \<Rightarrow> Inl e
      | Inr s1 \<Rightarrow> Inr (release_audio s1))"

text \<open>
  \<^verbatim>\<open>cleanupCall\<close> is the last statement of every handler that calls it, so an
  exception that leaves it ends the handler: the state stays as it was when
  \<^verbatim>\<open>close()\<close> raised, and the exception is recorded.
\<close>

definition cleanupCall :: "component \<Rightarrow> component" where
  "cleanupCall s =
     (case release s of
        Inl e \<Rightarrow> s\<lparr>rejections := rejections s @ [e]\<rparr>
      | Inr s' \<Rightarrow>
          s'\<lparr>transcriptions := [], nextStartTimeRef := 0, status := ENDED,
             isModelSpeaking := False, timers := timers s' + 1\<rparr>)"

definition App_cleanupCall :: "component \<Rightarrow> component" where
  "App_cleanupCall s =
     (case release s of
        Inl e \<Rightarrow> s\<lparr>rejections := rejections s @ [e]\<rparr>
      | Inr s' \<Rightarrow>
          s'\<lparr>transcriptions := [], transcriptionRef := \<lparr>user = [], model = []\<rparr>,
             nextStartTimeRef := 0, status := ENDED, isModelSpeaking := False,
             timers := timers s' + 1\<rparr>)"

text \<open>The callback of \<^verbatim>\<open>setTimeout(() => setStatus(CallStatus.IDLE), 1000)\<close>.\<close>

definition timeout :: "component \<Rightarrow> component" where
  "timeout s = (if 0 < timers s then s\<lparr>timers := timers s - 1, status := IDLE\<rparr> else s)"

subsection \<open>Starting a call\<close>

text \<open>
  \<^verbatim>\<open>startCall\<close> is asynchronous. How its awaited steps before \<^verbatim>\<open>connect\<close> end is
  given by the environment: the setup can raise before the audio contexts exist (the
  dynamic import in the page, the client constructor in the application), the page
  can find no API key (the application has no such test: its constructor raises), the
  microphone can be refused after the contexts were created, or \<^verbatim>\<open>connect\<close> is
  reached. These steps are taken as one; the session that \<^verbatim>\<open>connect\<close> promises
  arrives later, as an event of its own.
\<close>

datatype start_outcome = SetupFailed string | NoApiKey | MediaDenied string | Connecting

definition create_contexts :: "component \<Rightarrow> component" where
  "create_contexts s =
     s\<lparr>inputAudioCtxRef := Some (contexts s), outputAudioCtxRef := Some (contexts s + 1),
       contexts := contexts s + 2\<rparr>"

definition connect :: "component \<Rightarrow> component" where
  "connect s =
     s\<lparr>calls := calls s @ [Connect],
       sessions := sessions s @ [\<lparr>phase = Pending, closure_isMuted = isMuted s\<rparr>]\<rparr>"

text \<open>The \<^verbatim>\<open>catch\<close> block of \<^verbatim>\<open>startCall\<close>, in the page and in the application.\<close>

definition startCall_catch :: "string \<Rightarrow> component \<Rightarrow> component" where
  "startCall_catch msg s =
     s\<lparr>error := (if msg = [] then ''Failed to connect'' else msg), status := ERROR\<rparr>"

definition App_startCall_catch :: "component \<Rightarrow> component" where
  "App_startCall_catch s = App_cleanupCall (s\<lparr>status := ERROR\<rparr>)"

definition startCall :: "start_outcome \<Rightarrow> component \<Rightarrow> component" where
  "startCall outcome s =
     (let s1 = s\<lparr>status := CONNECTING, error := []\<rparr> in
      case outcome of
        SetupFailed msg \<Rightarrow> startCall_catch msg s1
      | NoApiKey \<Rightarrow>
          s1\<lparr>error := ''VITE_GEMINI_API_KEY not configured. Add it to frontend-react/.env'',
             status := ERROR\<rparr>
      | MediaDenied msg \<Rightarrow> startCall_catch msg (create_contexts s1)
      | Connecting \<Rightarrow> connect (create_contexts s1))"

definition App_startCall :: "start_outcome \<Rightarrow> component \<Rightarrow> component" where
  "App_startCall outcome s =
     (let s1 = s\<lparr>status := CONNECTING\<rparr> in
      case outcome of
        SetupFailed msg \<Rightarrow> App_startCall_catch s1
      | NoApiKey \<Rightarrow> App_startCall_catch s1
      | MediaDenied msg \<Rightarrow> App_startCall_catch (create_contexts s1)
      | Connecting \<Rightarrow> connect (create_contexts s1))"

text \<open>
  \<^verbatim>\<open>onopen\<close> sets the status and installs the capture callback; the promise of
  \<^verbatim>\<open>connect\<close> is fulfilled in the same turn of the event loop, so the assignment
  \<^verbatim>\<open>sessionRef.current = session\<close> that waits for it is taken with it.
\<close>

definition onopen :: "nat \<Rightarrow> component \<Rightarrow> component" where
  "onopen sid s = s\<lparr>status := ACTIVE, sessionRef := Some sid\<rparr>"

subsection \<open>Capture\<close>

text \<open>
  The page reads \<^verbatim>\<open>isMutedRef.current\<close>, which every render sets to the state
  variable (\<^verbatim>\<open>isMutedRef.current = isMuted\<close> in the component body).
\<close>

definition render :: "component \<Rightarrow> component" where
  "render s = s\<lparr>isMutedRef := isMuted s\<rparr>"

definition onaudioprocess :: "real list \<Rightarrow> component \<Rightarrow> component" where
  "onaudioprocess inputData s =
     (if isMutedRef s then s
      else case createPcmBlob inputData of
             Inl e \<Rightarrow> s\<lparr>rejections := rejections s @ [e]\<rparr>
           | Inr pcmBlob \<Rightarrow>
               (case sessionRef s of
                  Some sid \<Rightarrow> s\<lparr>calls := calls s @ [SendRealtimeInput sid pcmBlob]\<rparr>
                | None \<Rightarrow> s))"

text \<open>
  The application's callback tests the variable \<^verbatim>\<open>isMuted\<close> of its closure and
  sends through the promise of its own \<^verbatim>\<open>connect\<close> call.
\<close>

definition App_onaudioprocess :: "nat \<Rightarrow> real list \<Rightarrow> component \<Rightarrow> component" where
  "App_onaudioprocess sid inputData s =
     (if closure_isMuted (sessions s ! sid) then s
      else case createPcmBlob inputData of
             Inl e \<Rightarrow> s\<lparr>rejections := rejections s @ [e]\<rparr>
           | Inr pcmBlob \<Rightarrow> s\<lparr>calls := calls s @ [SendRealtimeInput sid pcmBlob]\<rparr>)"

subsection \<open>Inbound messages\<close>

text \<open>
  The parts of \<^verbatim>\<open>message.serverContent\<close> that the handlers read: \<open>audio\<close> is
  \<^verbatim>\<open>modelTurn?.parts[0]?.inlineData?.data\<close>; a transcription that is present has a
  \<^verbatim>\<open>text\<close> that may be undefined.
\<close>

record message =
  audio :: "js_string option"
  interrupted :: bool
  inputTranscription :: "string option option"
  outputTranscription :: "string option option"
  turnComplete :: bool

text \<open>
  Scheduling a decoded buffer: \<^verbatim>\<open>nextStartTimeRef.current = Math.max(...)\<close>,
  \<^verbatim>\<open>audioSource.start(nextStartTimeRef.current)\<close>,
  \<^verbatim>\<open>nextStartTimeRef.current += buffer.duration\<close>, \<^verbatim>\<open>sourcesRef.current.add(audioSource)\<close>.
\<close>

definition schedule :: "real \<Rightarrow> audio_buffer \<Rightarrow> component \<Rightarrow> component" where
  "schedule currentTime buffer s =
     (let audioSource = \<lparr>node = nodes s, started = False\<rparr>;
          start = max (nextStartTimeRef s) currentTime
      in s\<lparr>nodes := nodes s + 1,
           nextStartTimeRef := start + duration buffer,
           calls := calls s @ [SourceStart (node audioSource) start],
           sourcesRef := sourcesRef s @ [audioSource\<lparr>started := True\<rparr>]\<rparr>)"

text \<open>\<^verbatim>\<open>audioSource.onended\<close>\<close>

definition onended :: "nat \<Rightarrow> component \<Rightarrow> component" where
  "onended n s =
     (let s' = s\<lparr>sourcesRef := filter (\<lambda>source. node source \<noteq> n) (sourcesRef s)\<rparr>
      in if length (sourcesRef s') = 0 then s'\<lparr>isModelSpeaking := False\<rparr> else s')"

text \<open>\<^verbatim>\<open>if (message.serverContent?.interrupted) { ... }\<close>\<close>

definition on_interrupted :: "message \<Rightarrow> component \<Rightarrow> component" where
  "on_interrupted msg s =
     (if interrupted msg
      then (stop_sources s)\<lparr>nextStartTimeRef := 0, isModelSpeaking := False\<rparr>
      else s)"

text \<open>\<^verbatim>\<open>array.slice(-n)\<close>: the last \<open>n\<close> elements, all of them if there are fewer.\<close>

definition slice_last :: "nat \<Rightarrow> 'a list \<Rightarrow> 'a list" where
  "slice_last n xs = drop (length xs - n) xs"

text \<open>The page's updater \<^verbatim>\<open>(prev) => [...prev.slice(-19), {role, text, time: Date.now()}]\<close>\<close>

definition append_entry :: "TranscriptionEntry \<Rightarrow> TranscriptionEntry list \<Rightarrow> TranscriptionEntry list" where
  "append_entry entry prev = slice_last 19 prev @ [entry]"

definition on_transcription ::
  "role \<Rightarrow> string option option \<Rightarrow> nat \<Rightarrow> component \<Rightarrow> component" where
  "on_transcription r transcription now s =
     (case transcription of
        Some (Some t) \<Rightarrow>
          if t \<noteq> []
          then s\<lparr>transcriptions :=
                 append_entry \<lparr>role = r, entry_text = t, timestamp = now\<rparr> (transcriptions s)\<rparr>
          else s
      | _ \<Rightarrow> s)"

text \<open>
  \<^verbatim>\<open>onmessage\<close> of the page. An exception of \<^verbatim>\<open>decode\<close> or \<^verbatim>\<open>decodeAudioData\<close>
  ends the handler where it is raised, after \<^verbatim>\<open>setIsModelSpeaking(true)\<close>. An empty
  string is no audio (\<^verbatim>\<open>base64Audio && outputCtx\<close>).
\<close>

definition play :: "real \<Rightarrow> message \<Rightarrow> component \<Rightarrow> js_error \<times> component + component" where
  "play currentTime msg s =
     (case audio msg of
        None \<Rightarrow> Inr s
      | Some base64Audio \<Rightarrow>
          if base64Audio = [] then Inr s
          else (let s1 = s\<lparr>isModelSpeaking := True\<rparr> in
                case decodeChunk base64Audio of
                  Inl e \<Rightarrow> Inl (e, s1)
                | Inr buffer \<Rightarrow> Inr (schedule currentTime buffer s1)))"

definition onmessage :: "real \<Rightarrow> nat \<Rightarrow> message \<Rightarrow> component \<Rightarrow> component" where
  "onmessage currentTime now msg s =
     (case play currentTime msg s of
        Inl (e, s') \<Rightarrow> s'\<lparr>rejections := rejections s' @ [e]\<rparr>
      | Inr s1 \<Rightarrow>
          on_transcription Model (outputTranscription msg) now
            (on_transcription User (inputTranscription msg) now
              (on_interrupted msg s1)))"

text \<open>
  The application accumulates the deltas (\<^verbatim>\<open>transcriptionRef.current.user += text\<close>; an
  undefined text is appended as the string \<^verbatim>\<open>undefined\<close>) and writes the log when the
  turn is complete.
\<close>

definition text_string :: "string option \<Rightarrow> string" where
  "text_string t = (case t of None \<Rightarrow> ''undefined'' | Some str \<Rightarrow> str)"

definition App_on_inputTranscription :: "message \<Rightarrow> component \<Rightarrow> component" where
  "App_on_inputTranscription msg s =
     (case inputTranscription msg of
        Some t \<Rightarrow>
          s\<lparr>transcriptionRef :=
              (transcriptionRef s)\<lparr>user := user (transcriptionRef s) @ text_string t\<rparr>\<rparr>
      | None \<Rightarrow> s)"

definition App_on_outputTranscription :: "message \<Rightarrow> component \<Rightarrow> component" where
  "App_on_outputTranscription msg s =
     (case outputTranscription msg of
        Some t \<Rightarrow>
          s\<lparr>transcriptionRef :=
              (transcriptionRef s)\<lparr>model := model (transcriptionRef s) @ text_string t\<rparr>\<rparr>
      | None \<Rightarrow> s)"

text \<open>
  The updater of the application: \<^verbatim>\<open>newEntries\<close> gets the user entry if \<^verbatim>\<open>uText\<close> is
  not empty, then the model entry if \<^verbatim>\<open>mText\<close> is not empty; the result is
  \<^verbatim>\<open>[...prev, ...newEntries].slice(-20)\<close>.
\<close>

definition newEntries :: "string \<Rightarrow> string \<Rightarrow> nat \<Rightarrow> TranscriptionEntry list" where
  "newEntries uText mText now =
     (if uText \<noteq> [] then [\<lparr>role = User, entry_text = uText, timestamp = now\<rparr>] else [])
     @ (if mText \<noteq> [] then [\<lparr>role = Model, entry_text = mText, timestamp = now\<rparr>] else [])"

definition App_append_entries ::
  "TranscriptionEntry list \<Rightarrow> TranscriptionEntry list \<Rightarrow> TranscriptionEntry list" where
  "App_append_entries entries prev = slice_last 20 (prev @ entries)"

definition App_on_turnComplete :: "message \<Rightarrow> nat \<Rightarrow> component \<Rightarrow> component" where
  "App_on_turnComplete msg now s =
     (if turnComplete msg then
        (let uText = user (transcriptionRef s);
             mText = model (transcriptionRef s);
             s1 = (if \<not> (uText = [] \<and> mText = [])
                   then s\<lparr>transcriptions :=
                          App_append_entries (newEntries uText mText now) (transcriptions s)\<rparr>
                   else s)
         in s1\<lparr>transcriptionRef := \<lparr>user = [], model = []\<rparr>\<rparr>)
      else s)"

definition App_onmessage :: "real \<Rightarrow> nat \<Rightarrow> message \<Rightarrow> component \<Rightarrow> component" where
  "App_onmessage currentTime now msg s =
     (case play currentTime msg s of
        Inl (e, s') \<Rightarrow> s'\<lparr>rejections := rejections s' @ [e]\<rparr>
      | Inr s1 \<Rightarrow>
          App_on_turnComplete msg now
            (App_on_outputTranscription msg
              (App_on_inputTranscription msg
                (on_interrupted msg s1))))"

subsection \<open>Terminal events\<close>

definition onerror :: "component \<Rightarrow> component" where
  "onerror s =
     cleanupCall (s\<lparr>error := ''Connection error. Please try again.'', status := ERROR\<rparr>)"

definition App_onerror :: "component \<Rightarrow> component" where
  "App_onerror s = App_cleanupCall (s\<lparr>status := ERROR\<rparr>)"

definition onclose :: "component \<Rightarrow> component" where
  "onclose s = cleanupCall s"

definition App_onclose :: "component \<Rightarrow> component" where
  "App_onclose s = App_cleanupCall s"

subsection \<open>The user interface and the event loop\<close>

text \<open>
  The handlers are reachable only through the buttons that the component renders
  and through the callbacks. The page renders the start button (\<^verbatim>\<open>Start Call\<close>, or
  \<^verbatim>\<open>Try Again\<close> in the error state) unless the status is \<^verbatim>\<open>ACTIVE\<close> or \<^verbatim>\<open>CONNECTING\<close>,
  and the mute and end buttons only when it is \<^verbatim>\<open>ACTIVE\<close>. The application renders
  the start button when the status is \<^verbatim>\<open>IDLE\<close> or \<^verbatim>\<open>ENDED\<close>, enables the mute button
  when it is \<^verbatim>\<open>ACTIVE\<close> and the end button when it is \<^verbatim>\<open>ACTIVE\<close> or \<^verbatim>\<open>CONNECTING\<close>.
\<close>

definition start_button :: "component \<Rightarrow> bool" where
  "start_button s \<longleftrightarrow> status s \<noteq> ACTIVE \<and> status s \<noteq> CONNECTING"

definition App_start_button :: "component \<Rightarrow> bool" where
  "App_start_button s \<longleftrightarrow> status s = IDLE \<or> status s = ENDED"

definition App_end_button :: "component \<Rightarrow> bool" where
  "App_end_button s \<longleftrightarrow> status s = ACTIVE \<or> status s = CONNECTING"

text \<open>The mute button: \<^verbatim>\<open>onClick={() => setIsMuted(!isMuted)}\<close>\<close>

definition toggle_mute :: "component \<Rightarrow> component" where
  "toggle_mute s = s\<lparr>isMuted := \<not> isMuted s\<rparr>"

text \<open>
  One turn of the event loop. A click arrives only at a button that is there; a
  callback of a session arrives only in a phase in which the transport delivers it;
  any other event leaves the state as it is.
\<close>

datatype event =
    ClickStart start_outcome
  | ClickMute
  | ClickEndCall
  | Open nat
  | Rejected nat string
  | AudioProcess nat "real list"
  | Message nat real nat message
  | SourceEnded nat
  | TransportError nat
  | TransportClose nat
  | Timeout

definition in_phase :: "nat \<Rightarrow> phase set \<Rightarrow> component \<Rightarrow> bool" where
  "in_phase sid ps s \<longleftrightarrow> sid < length (sessions s) \<and> phase (sessions s ! sid) \<in> ps"

definition set_phase :: "nat \<Rightarrow> phase \<Rightarrow> component \<Rightarrow> component" where
  "set_phase sid p s = s\<lparr>sessions := (sessions s)[sid := (sessions s ! sid)\<lparr>phase := p\<rparr>]\<rparr>"

fun handle :: "event \<Rightarrow> component \<Rightarrow> component" where
  "handle (ClickStart outcome) s = (if start_button s then startCall outcome s else s)"
| "handle ClickMute s = (if status s = ACTIVE then toggle_mute s else s)"
| "handle ClickEndCall s = (if status s = ACTIVE then cleanupCall s else s)"
| "handle (Open sid) s =
     (if in_phase sid {Pending} s then onopen sid (set_phase sid Live s) else s)"
| "handle (Rejected sid msg) s =
     (if in_phase sid {Pending} s then startCall_catch msg (set_phase sid Closed s) else s)"
| "handle (AudioProcess sid inputData) s =
     (if in_phase sid {Live, Closing, Closed} s then onaudioprocess inputData s else s)"
| "handle (Message sid currentTime now msg) s =
     (if in_phase sid {Live, Closing} s then onmessage currentTime now msg s else s)"
| "handle (SourceEnded n) s = (if n < nodes s then onended n s else s)"
| "handle (TransportError sid) s =
     (if in_phase sid {Pending, Live, Closing} s then onerror s else s)"
| "handle (TransportClose sid) s =
     (if in_phase sid {Pending, Live, Closing} s then onclose (set_phase sid Closed s) else s)"
| "handle Timeout s = timeout s"

definition step :: "event \<Rightarrow> component \<Rightarrow> component" where
  "step e s = render (handle e s)"

fun App_step :: "event \<Rightarrow> component \<Rightarrow> component" where
  "App_step (ClickStart outcome) s =
     (if App_start_button s then App_startCall outcome s else s)"
| "App_step ClickMute s = (if status s = ACTIVE then toggle_mute s else s)"
| "App_step ClickEndCall s = (if App_end_button s then App_cleanupCall s else s)"
| "App_step (Open sid) s =
     (if in_phase sid {Pending} s then onopen sid (set_phase sid Live s) else s)"
| "App_step (Rejected sid msg) s =
     (if in_phase sid {Pending} s then App_startCall_catch (set_phase sid Closed s) else s)"
| "App_step (AudioProcess sid inputData) s =
     (if in_phase sid {Live, Closing, Closed} s then App_onaudioprocess sid inputData s else s)"
| "App_step (Message sid currentTime now msg) s =
     (if in_phase sid {Live, Closing} s then App_onmessage currentTime now msg s else s)"
| "App_step (SourceEnded n) s = (if n < nodes s then onended n s else s)"
| "App_step (TransportError sid) s =
     (if in_phase sid {Pending, Live, Closing} s then App_onerror s else s)"
| "App_step (TransportClose sid) s =
     (if in_phase sid {Pending, Live, Closing} s then App_onclose (set_phase sid Closed s) else s)"
| "App_step Timeout s = timeout s"

definition run :: "event list \<Rightarrow> component \<Rightarrow> component" where
  "run es s = foldl (\<lambda>s e. step e s) s es"

definition App_run :: "event list \<Rightarrow> component \<Rightarrow> component" where
  "App_run es s = foldl (\<lambda>s e. App_step e s) s es"

text \<open>The statuses a run passes through, the first one included.\<close>

fun statuses :: "(event \<Rightarrow> component \<Rightarrow> component) \<Rightarrow> event list \<Rightarrow> component \<Rightarrow> CallStatus list" where
  "statuses f [] s = [status s]"
| "statuses f (e # es) s = status s # statuses f es (f e s)"

text \<open>The sessions that are live, and the payloads sent so far.\<close>

definition live_sessions :: "component \<Rightarrow> nat list" where
  "live_sessions s = filter (\<lambda>sid. phase (sessions s ! sid) = Live) [0..<length (sessions s)]"

fun is_send :: "call \<Rightarrow> bool" where
  "is_send (SendRealtimeInput sid pcmBlob) = True"
| "is_send c = False"

definition sends :: "component \<Rightarrow> nat" where
  "sends s = length (filter is_send (calls s))"


subsection \<open>Observations used in the statements\<close>

text \<open>
  Whether the session held in \<^verbatim>\<open>sessionRef\<close> is one whose \<^verbatim>\<open>close()\<close> raises; and
  the release calls that the resources held in a state require: the close of the
  session, the stop of each started source in the order of the set, the close of the
  input and of the output audio context.
\<close>

definition close_raises :: "component \<Rightarrow> bool" where
  "close_raises s = (case sessionRef s of Some sid \<Rightarrow> sid \<in> faulty s | None \<Rightarrow> False)"

definition release_calls :: "component \<Rightarrow> call list" where
  "release_calls s =
     (case sessionRef s of Some sid \<Rightarrow> [SessionClose sid] | None \<Rightarrow> [])
     @ map (\<lambda>source. SourceStop (node source)) (filter started (sourcesRef s))
     @ (case inputAudioCtxRef s of Some c \<Rightarrow> [ContextClose c] | None \<Rightarrow> [])
     @ (case outputAudioCtxRef s of Some c \<Rightarrow> [ContextClose c] | None \<Rightarrow> [])"

text \<open>The times at which sources were started, in the order of the calls.\<close>

fun start_times :: "call list \<Rightarrow> real list" where
  "start_times [] = []"
| "start_times (SourceStart n t # cs) = t # start_times cs"
| "start_times (c # cs) = start_times cs"

text \<open>
  The schedule as the specification words it, for chunks given by arrival time and
  duration: \<open>start = max(nextStart, now)\<close>, then \<open>nextStart = start + d\<close>.
\<close>

fun expected_starts :: "real \<Rightarrow> (real \<times> real) list \<Rightarrow> real list" where
  "expected_starts nextStart [] = []"
| "expected_starts nextStart ((now, d) # chunks) =
     (let start = max nextStart now in start # expected_starts (start + d) chunks)"

text \<open>Messages with one part only, and a payload that decodes.\<close>

definition no_content :: message where
  "no_content =
     \<lparr>audio = None, interrupted = False, inputTranscription = None,
      outputTranscription = None, turnComplete = False\<rparr>"

definition audio_chunk :: "js_string \<Rightarrow> message" where
  "audio_chunk base64Audio = no_content\<lparr>audio := Some base64Audio\<rparr>"

definition playable :: "js_string \<Rightarrow> bool" where
  "playable base64Audio \<longleftrightarrow>
     base64Audio \<noteq> [] \<and> (case decodeChunk base64Audio of Inl e \<Rightarrow> False | Inr buffer \<Rightarrow> True)"

definition chunk_duration :: "js_string \<Rightarrow> real" where
  "chunk_duration base64Audio =
     (case decodeChunk base64Audio of Inl e \<Rightarrow> 0 | Inr buffer \<Rightarrow> duration buffer)"

text \<open>
  A run of audio messages through a message handler, each chunk given by the
  playback clock at its arrival and its payload.
\<close>

definition play_chunks ::
  "(real \<Rightarrow> nat \<Rightarrow> message \<Rightarrow> component \<Rightarrow> component) \<Rightarrow> (real \<times> js_string) list
     \<Rightarrow> component \<Rightarrow> component" where
  "play_chunks h chunks s = foldl (\<lambda>s c. h (fst c) 0 (audio_chunk (snd c)) s) s chunks"

text \<open>The payload that \<^verbatim>\<open>createPcmBlob\<close> makes of a frame of silence with \<open>n\<close> samples.\<close>

definition silence :: "nat \<Rightarrow> js_string" where
  "silence n = (case createPcmBlob (replicate n 0) of Inl e \<Rightarrow> [] | Inr pcmBlob \<Rightarrow> data pcmBlob)"

text \<open>
  A state in which no transport has opened for the component yet: the status is not
  \<^verbatim>\<open>ACTIVE\<close>, and unless it is \<^verbatim>\<open>CONNECTING\<close> no session has been requested.
\<close>

definition never_connected :: "component \<Rightarrow> bool" where
  "never_connected s \<longleftrightarrow> status s \<noteq> ACTIVE \<and> (status s = CONNECTING \<or> sessions s = [])"

section \<open>Verification\<close>

subsection \<open>Base64 transport wrapping\<close>

lemma b64_sextet_code: "i < 64 \<Longrightarrow> b64_sextet (b64_code i) = Some i"
  unfolding b64_sextet_def b64_code_def by (auto split: if_splits)

lemma b64_code_plain: "i < 64 \<Longrightarrow> \<not> is_ascii_whitespace (b64_code i) \<and> b64_code i \<noteq> 61"
  unfolding is_ascii_whitespace_def b64_code_def by (auto split: if_splits)

lemma length_b64_sextets:
  "length (b64_sextets bs) = (length bs div 3) * 4 + (if length bs mod 3 = 0 then 0 else length bs mod 3 + 1)"
  by (induction bs rule: b64_sextets.induct) simp_all

lemma div_mod_pack:
  fixes r h n :: nat
  assumes "h < n"
  shows "(r * n + h) div n = r" and "(r * n + h) mod n = h"
  using assms by simp_all

lemma sextet1: "(a::nat) < 256 \<Longrightarrow> a div 4 < 64"
  by simp

lemma sextet2: "(b::nat) < 256 \<Longrightarrow> (a mod 4) * 16 + b div 16 < 64"
proof -
  assume "b < 256"
  then have "b div 16 < 16" by simp
  moreover have "a mod 4 < 4" by simp
  ultimately show ?thesis by linarith
qed

lemma sextet3: "(c::nat) < 256 \<Longrightarrow> (b mod 16) * 4 + c div 64 < 64"
proof -
  assume "c < 256"
  then have "c div 64 < 4" by simp
  moreover have "b mod 16 < 16" by simp
  ultimately show ?thesis by linarith
qed

lemma octet1: "(b::nat) < 256 \<Longrightarrow> a div 4 * 4 + ((a mod 4) * 16 + b div 16) div 16 = a"
proof -
  assume "b < 256"
  then have "b div 16 < 16" by simp
  then have "((a mod 4) * 16 + b div 16) div 16 = a mod 4" by (rule div_mod_pack(1))
  then show ?thesis by (simp only: div_mult_mod_eq)
qed

lemma octet2:
  "(b::nat) < 256 \<Longrightarrow> c < 256 \<Longrightarrow>
   (((a mod 4) * 16 + b div 16) mod 16) * 16 + ((b mod 16) * 4 + c div 64) div 4 = b"
proof -
  assume "b < 256" "c < 256"
  then have q: "b div 16 < 16" "c div 64 < 4" by simp_all
  have "((a mod 4) * 16 + b div 16) mod 16 = b div 16" by (rule div_mod_pack(2) [OF q(1)])
  moreover have "((b mod 16) * 4 + c div 64) div 4 = b mod 16" by (rule div_mod_pack(1) [OF q(2)])
  ultimately show ?thesis by (simp only: div_mult_mod_eq)
qed

lemma octet3: "(c::nat) < 256 \<Longrightarrow> (((b mod 16) * 4 + c div 64) mod 4) * 64 + c mod 64 = c"
proof -
  assume "c < 256"
  then have "c div 64 < 4" by simp
  then have "((b mod 16) * 4 + c div 64) mod 4 = c div 64" by (rule div_mod_pack(2))
  then show ?thesis by (simp only: div_mult_mod_eq)
qed

lemma b64_sextets_bound:
  "\<forall>b \<in> set bs. b < 256 \<Longrightarrow> \<forall>s \<in> set (b64_sextets bs). s < 64"
proof (induction bs rule: b64_sextets.induct)
  case (4 a b c rest)
  then have p: "a < 256" "b < 256" "c < 256" and r: "\<forall>b \<in> set rest. b < 256"
    by simp_all
  have "c mod 64 < 64" by simp
  with sextet1 [OF p(1)] sextet2 [OF p(2), of a] sextet3 [OF p(3), of b] "4.IH" [OF r]
  show ?case
    by (simp only: b64_sextets.simps set_append set_simps ball_Un ball_simps simp_thms)
next
  case (3 a b)
  then have p: "a < 256" "b < 256" by simp_all
  have "(b mod 16) * 4 < 64" using sextet3 [of 0 b] by simp
  with sextet1 [OF p(1)] sextet2 [OF p(2), of a]
  show ?case
    by (simp only: b64_sextets.simps set_simps ball_simps simp_thms)
next
  case (2 a)
  then have p: "a < 256" by simp
  have "(a mod 4) * 16 < 64" using sextet2 [of 0 a] by simp
  with sextet1 [OF p]
  show ?case
    by (simp only: b64_sextets.simps set_simps ball_simps simp_thms)
qed simp

lemma b64_octets_sextets:
  "\<forall>b \<in> set bs. b < 256 \<Longrightarrow> b64_octets (b64_sextets bs) = bs"
proof (induction bs rule: b64_sextets.induct)
  case (4 a b c rest)
  then have p: "a < 256" "b < 256" "c < 256" and r: "\<forall>b \<in> set rest. b < 256"
    by simp_all
  show ?case
    by (simp only: b64_sextets.simps b64_octets.simps append_Cons append_Nil
          octet1 [OF p(2)] octet2 [OF p(2) p(3)] octet3 [OF p(3)] "4.IH" [OF r])
next
  case (3 a b)
  then have p: "b < 256" by simp
  have "(((a mod 4) * 16 + b div 16) mod 16) * 16 + ((b mod 16) * 4) div 4 = b"
    using octet2 [OF p, of 0 a] by simp
  then show ?case
    by (simp only: b64_sextets.simps b64_octets.simps octet1 [OF p])
next
  case (2 a)
  have "a div 4 * 4 + ((a mod 4) * 16) div 16 = a"
    using octet1 [of 0 a] by simp
  then show ?case
    by (simp only: b64_sextets.simps b64_octets.simps)
qed simp

lemma those_sextet_code:
  "\<forall>s \<in> set sx. s < 64 \<Longrightarrow> those (map b64_sextet (map b64_code sx)) = Some sx"
  by (induction sx) (simp_all add: b64_sextet_code)

lemma filter_whitespace_codes:
  "\<forall>s \<in> set sx. s < 64 \<Longrightarrow>
   filter (\<lambda>c. \<not> is_ascii_whitespace c) (map b64_code sx @ replicate k 61) =
   map b64_code sx @ replicate k 61"
proof (rule filter_True)
  assume sx: "\<forall>s \<in> set sx. s < 64"
  have "\<not> is_ascii_whitespace 61" by (simp add: is_ascii_whitespace_def)
  then show "\<forall>x \<in> set (map b64_code sx @ replicate k 61). \<not> is_ascii_whitespace x"
    using sx b64_code_plain by auto
qed

lemma remove_padding_append:
  assumes "61 \<notin> set xs" and "k \<le> 2" and "length (xs @ replicate k 61) mod 4 = 0"
  shows "remove_padding (xs @ replicate k 61) = xs"
proof -
  consider "k = 0" | "k = 1" | "k = 2" using assms(2) by linarith
  then show ?thesis
  proof cases
    case 1
    show ?thesis
    proof (cases "rev xs")
      case Nil
      then show ?thesis using 1 by (simp add: remove_padding_def)
    next
      case (Cons y r)
      then have "y \<in> set xs" by (metis list.set_intros(1) set_rev)
      then have "y \<noteq> 61" using assms(1) by auto
      then show ?thesis using 1 Cons assms(3)
        by (cases r) (simp_all add: remove_padding_def)
    qed
  next
    case 2
    show ?thesis
    proof (cases "rev xs")
      case Nil
      then show ?thesis using 2 assms(3) by simp
    next
      case (Cons y r)
      then have "y \<in> set xs" by (metis list.set_intros(1) set_rev)
      then have y: "y \<noteq> 61" using assms(1) by auto
      have "xs = rev (y # r)" using Cons by (metis rev_rev_ident)
      then show ?thesis using 2 Cons assms(3) y
        by (simp add: remove_padding_def)
    qed
  next
    case 3
    then have "rev (xs @ replicate k 61) = 61 # 61 # rev xs"
      by (simp add: numeral_2_eq_2)
    then show ?thesis using assms(3)
      by (simp add: remove_padding_def)
  qed
qed

lemma b64_length_facts:
  "(length (b64_sextets s) + length (b64_padding (length s))) mod 4 = 0"
  "length (b64_sextets s) mod 4 \<noteq> 1"
  "length (b64_padding (length s)) \<le> 2"
proof -
  consider "length s mod 3 = 0" | "length s mod 3 = 1" | "length s mod 3 = 2"
    by linarith
  then have "(length (b64_sextets s) + length (b64_padding (length s))) mod 4 = 0
      \<and> length (b64_sextets s) mod 4 \<noteq> 1 \<and> length (b64_padding (length s)) \<le> 2"
    by cases (simp_all add: length_b64_sextets b64_padding_def mod_Suc)
  then show "(length (b64_sextets s) + length (b64_padding (length s))) mod 4 = 0"
    "length (b64_sextets s) mod 4 \<noteq> 1"
    "length (b64_padding (length s)) \<le> 2" by simp_all
qed

lemma atob_btoa:
  assumes "\<forall>c \<in> set s. c < 256"
  shows "btoa s = Inr (map b64_code (b64_sextets s) @ b64_padding (length s))"
    and "atob (map b64_code (b64_sextets s) @ b64_padding (length s)) = Inr s"
proof -
  let ?sx = "b64_sextets s" and ?k = "length (b64_padding (length s))"
  let ?xs = "map b64_code ?sx"
  have pad: "b64_padding (length s) = replicate ?k 61"
    by (simp add: b64_padding_def)
  have sx: "\<forall>x \<in> set ?sx. x < 64"
    using assms by (rule b64_sextets_bound)
  have no_eq: "61 \<notin> set ?xs"
    using sx b64_code_plain by auto
  have len: "length (?xs @ replicate ?k 61) mod 4 = 0"
    using b64_length_facts(1) [of s] by simp
  have flt: "filter (\<lambda>c. \<not> is_ascii_whitespace c) (?xs @ replicate ?k 61) = ?xs @ replicate ?k 61"
    using sx by (rule filter_whitespace_codes)
  have rm: "remove_padding (?xs @ replicate ?k 61) = ?xs"
    using no_eq b64_length_facts(3) len by (rule remove_padding_append)
  have len1: "length ?xs mod 4 \<noteq> 1"
    using b64_length_facts(2) [of s] by simp
  have th: "those (map b64_sextet ?xs) = Some ?sx"
    using sx by (rule those_sextet_code)
  have oc: "b64_octets ?sx = s"
    using assms by (rule b64_octets_sextets)
  show "btoa s = Inr (?xs @ b64_padding (length s))"
    using assms by (auto simp: btoa_def)
  have "atob (?xs @ replicate ?k 61) = Inr s"
    unfolding atob_def flt rm Let_def using len1 th oc by simp
  then show "atob (?xs @ b64_padding (length s)) = Inr s"
    using pad by simp
qed

lemma encode_loop: "foldl (\<lambda>binary b. binary @ [f b]) acc bytes = acc @ map f bytes"
  by (induction bytes arbitrary: acc) simp_all

lemma unat_byte: "unat (b :: byte) < 256"
proof -
  have "unat b < 2 ^ LENGTH(8)" by (rule unsigned_less)
  then show ?thesis by simp
qed

lemma fromCharCode_byte: "fromCharCode (unat (b :: byte)) = unat b"
  using unat_byte [of b] by (simp add: fromCharCode_def)

lemma decode_encode:
  "\<exists>s. encode bytes = Inr s \<and> decode s = Inr bytes"
proof -
  let ?bin = "map (\<lambda>b. fromCharCode (unat b)) bytes"
  have bin: "\<forall>c \<in> set ?bin. c < 256"
    by (simp add: fromCharCode_byte unat_byte)
  have inv: "map (\<lambda>c. (of_nat c :: byte)) ?bin = bytes"
  proof -
    have "(of_nat (fromCharCode (unat b)) :: byte) = b" for b
      by (simp add: fromCharCode_byte)
    then show ?thesis by (simp add: map_idI comp_def)
  qed
  have enc: "encode bytes = btoa ?bin"
    by (simp add: encode_def encode_loop)
  show ?thesis
    using atob_btoa [OF bin] inv by (simp add: enc decode_def)
qed

text \<open>
  C10: for every byte array, \<^verbatim>\<open>encode\<close> returns a string (it raises nothing) and
  \<^verbatim>\<open>decode\<close> of that string returns exactly the bytes that were encoded.
\<close>

theorem base64_roundtrip: "\<exists>s. encode bytes = Inr s \<and> decode s = Inr bytes"
  by (rule decode_encode)

subsection \<open>PCM16 round trip\<close>

lemma unat_int16: "unat (w :: int16) < 65536"
proof -
  have "unat w < 2 ^ LENGTH(16)" by (rule unsigned_less)
  then show ?thesis by simp
qed

lemma int16_of_bytes:
  "(of_nat (unat (of_nat (unat w mod 256) :: byte) + 256 * unat (of_nat (unat w div 256) :: byte)) :: int16) = w"
proof -
  have hi: "unat w div 256 < 256" using unat_int16 [of w] by simp
  have "unat (of_nat (unat w mod 256) :: byte) = unat w mod 256"
    by (simp add: unat_of_nat)
  moreover have "unat (of_nat (unat w div 256) :: byte) = unat w div 256"
    using hi by (simp add: unat_of_nat)
  ultimately show ?thesis by simp
qed

lemma Int16Array_of_int16_bytes:
  "Int16Array_of_bytes (concat (map int16_bytes ws)) = Inr ws"
  by (induction ws) (simp_all add: int16_bytes_def int16_of_bytes del: of_nat_add of_nat_mult)

lemma sint_ToInt16:
  assumes "- 32768 \<le> truncate_number x" and "truncate_number x < 32768"
  shows "sint (ToInt16 x) = truncate_number x"
  using assms by (simp add: ToInt16_def sint_sbintrunc' signed_take_bit_int_eq_self)

lemma truncate_number_bounds:
  assumes "- 1 \<le> x" and "x < 1"
  shows "- 32768 \<le> truncate_number (x * 32768)" and "truncate_number (x * 32768) < 32768"
  using assms by (auto simp: truncate_number_def; linarith)+

lemma truncate_number_error: "\<bar>real_of_int (truncate_number y) - y\<bar> < 1"
  by (simp add: truncate_number_def; linarith)

lemma map_nth_fun: "map (\<lambda>i. f (ws ! i)) [0..<length ws] = map f ws"
  by (rule nth_equalityI) simp_all

lemma decodeAudioData_mono:
  assumes "ws \<noteq> []"
  shows "decodeAudioData (concat (map int16_bytes ws)) rate 1 =
         Inr \<lparr>numberOfChannels = 1, frames = length ws, sampleRate = rate,
              channelData = [map (\<lambda>w. real_of_int (sint w) / 32768) ws]\<rparr>"
  using assms map_nth_fun [of "\<lambda>w. real_of_int (sint w) / 32768" ws]
  by (simp add: decodeAudioData_def Int16Array_of_int16_bytes Let_def)

lemma createPcmBlob_decodeChunk:
  "\<exists>pcmBlob. createPcmBlob (x # xs) = Inr pcmBlob \<and>
     decodeChunk (data pcmBlob) =
       Inr \<lparr>numberOfChannels = 1, frames = length (x # xs), sampleRate = 24000,
            channelData = [map (\<lambda>x. real_of_int (sint (ToInt16 (x * 32768))) / 32768) (x # xs)]\<rparr>"
proof -
  let ?ws = "map (\<lambda>x. ToInt16 (x * 32768)) (x # xs)"
  obtain s where s: "encode (concat (map int16_bytes ?ws)) = Inr s"
    and d: "decode s = Inr (concat (map int16_bytes ?ws))"
    using decode_encode by blast
  have blob: "createPcmBlob (x # xs) = Inr \<lparr>data = s, mimeType = ''audio/pcm;rate=16000''\<rparr>"
    using s by (simp add: createPcmBlob_def del: concat.simps list.map)
  have ne: "?ws \<noteq> []" by simp
  have "decodeChunk s =
      Inr \<lparr>numberOfChannels = 1, frames = length ?ws, sampleRate = 24000,
            channelData = [map (\<lambda>w. real_of_int (sint w) / 32768) ?ws]\<rparr>"
    by (simp only: decodeChunk_def d sum.case decodeAudioData_mono [OF ne])
  also have "map (\<lambda>w. real_of_int (sint w) / 32768) ?ws =
      map (\<lambda>x. real_of_int (sint (ToInt16 (x * 32768))) / 32768) (x # xs)"
    by (simp only: map_map comp_def)
  finally show ?thesis using blob by (simp del: list.map)
qed

lemma pcm_roundtrip_samples:
  "pcm_roundtrip (x # xs) =
   Inr (map (\<lambda>x. real_of_int (sint (ToInt16 (x * 32768))) / 32768) (x # xs))"
proof -
  obtain pcmBlob where "createPcmBlob (x # xs) = Inr pcmBlob"
    and "decodeChunk (data pcmBlob) =
       Inr \<lparr>numberOfChannels = 1, frames = length (x # xs), sampleRate = 24000,
            channelData = [map (\<lambda>x. real_of_int (sint (ToInt16 (x * 32768))) / 32768) (x # xs)]\<rparr>"
    using createPcmBlob_decodeChunk by blast
  then show ?thesis
    by (simp add: pcm_roundtrip_def getChannelData_def del: list.map)
qed

lemma quantization_error:
  assumes "- 1 \<le> x" and "x < 1"
  shows "\<bar>real_of_int (sint (ToInt16 (x * 32768))) / 32768 - x\<bar> < 1 / 32768"
proof -
  let ?k = "truncate_number (x * 32768)"
  have "sint (ToInt16 (x * 32768)) = ?k"
    using truncate_number_bounds [OF assms] by (rule sint_ToInt16)
  moreover have "\<bar>real_of_int ?k - x * 32768\<bar> < 1"
    by (rule truncate_number_error)
  ultimately show ?thesis by (simp add: field_simps abs_less_iff)
qed

lemma pcm_roundtrip_below_full_scale:
  assumes "\<forall>x \<in> set (x # xs). - 1 \<le> x \<and> x < 1"
  shows "\<exists>ys. pcm_roundtrip (x # xs) = Inr ys \<and> length ys = length (x # xs) \<and>
           (\<forall>i < length (x # xs). \<bar>ys ! i - (x # xs) ! i\<bar> < 1 / 32768)"
proof -
  let ?f = "\<lambda>x. real_of_int (sint (ToInt16 (x * 32768))) / 32768"
  have "\<bar>map ?f (x # xs) ! i - (x # xs) ! i\<bar> < 1 / 32768" if "i < length (x # xs)" for i
  proof -
    have "(x # xs) ! i \<in> set (x # xs)" using that by (rule nth_mem)
    then have "- 1 \<le> (x # xs) ! i" "(x # xs) ! i < 1" using assms by blast+
    then have "\<bar>?f ((x # xs) ! i) - (x # xs) ! i\<bar> < 1 / 32768" by (rule quantization_error)
    then show ?thesis using that by (simp only: nth_map)
  qed
  then show ?thesis
    unfolding pcm_roundtrip_samples by (simp del: list.map nth_Cons_Suc)
qed

text \<open>
  C3: the round-trip error is to stay within \<open>1/32768\<close> for every sample in
  \<open>[-1, 1]\<close>, without wrapping. At the sample \<open>1\<close> the product \<open>32768\<close> does not fit a signed 16-bit
  integer: the store into the \<^verbatim>\<open>Int16Array\<close> wraps it to \<open>-32768\<close>, and the frame
  \<open>[1]\<close> comes back as \<open>[-1]\<close>, at distance \<open>2\<close> from the original.
\<close>

theorem pcm_roundtrip_full_scale_wraps:
  "pcm_roundtrip [1] = Inr [- 1] \<and> sint (ToInt16 (1 * 32768)) = - 32768
   \<and> \<not> \<bar>(- 1) - (1 :: real)\<bar> \<le> 1 / 32768"
  by (simp add: pcm_roundtrip_samples ToInt16_def truncate_number_def)

subsection \<open>Playback scheduling\<close>

lemma decodeChunk_empty: "decodeChunk [] = Inl NotSupportedError"
  by (simp add: decodeChunk_def decode_def atob_def remove_padding_def decodeAudioData_def)

lemma silence_playable:
  assumes "0 < n"
  shows "playable (silence n)" and "chunk_duration (silence n) = real n / 24000"
proof -
  obtain m where n: "n = Suc m" using assms by (cases n) simp_all
  obtain pcmBlob where b: "createPcmBlob (replicate n 0) = Inr pcmBlob"
    and d: "decodeChunk (data pcmBlob) =
       Inr \<lparr>numberOfChannels = 1, frames = n, sampleRate = 24000,
            channelData = [map (\<lambda>x. real_of_int (sint (ToInt16 (x * 32768))) / 32768) (replicate n 0)]\<rparr>"
    using createPcmBlob_decodeChunk [of 0 "replicate m 0"] unfolding n by auto
  have s: "silence n = data pcmBlob" by (simp add: silence_def b)
  have "data pcmBlob \<noteq> []" using d decodeChunk_empty by auto
  then show "playable (silence n)" by (simp add: playable_def s d)
  show "chunk_duration (silence n) = real n / 24000"
    by (simp add: chunk_duration_def s d duration_def)
qed

lemma start_times_append: "start_times (cs @ ds) = start_times cs @ start_times ds"
  by (induction cs rule: start_times.induct) simp_all

lemma play_audio_chunk:
  assumes "playable b"
  shows "\<exists>buffer. decodeChunk b = Inr buffer \<and> chunk_duration b = duration buffer \<and>
           play t (audio_chunk b) s = Inr (schedule t buffer (s\<lparr>isModelSpeaking := True\<rparr>))"
  using assms
  by (auto simp: playable_def chunk_duration_def play_def audio_chunk_def no_content_def
           split: sum.splits)

lemma on_interrupted_not: "\<not> interrupted msg \<Longrightarrow> on_interrupted msg s = s"
  by (simp add: on_interrupted_def)

lemma on_transcription_None: "on_transcription r None now s = s"
  by (simp add: on_transcription_def)

lemma audio_chunk_fields:
  "\<not> interrupted (audio_chunk b)" "inputTranscription (audio_chunk b) = None"
  "outputTranscription (audio_chunk b) = None" "\<not> turnComplete (audio_chunk b)"
  by (simp_all add: audio_chunk_def no_content_def)

lemma onmessage_audio_chunk:
  assumes "playable b"
  shows "\<exists>buffer. decodeChunk b = Inr buffer \<and> chunk_duration b = duration buffer \<and>
           onmessage t n (audio_chunk b) s = schedule t buffer (s\<lparr>isModelSpeaking := True\<rparr>) \<and>
           App_onmessage t n (audio_chunk b) s = schedule t buffer (s\<lparr>isModelSpeaking := True\<rparr>)"
proof -
  obtain buffer where b: "decodeChunk b = Inr buffer" "chunk_duration b = duration buffer"
    "play t (audio_chunk b) s = Inr (schedule t buffer (s\<lparr>isModelSpeaking := True\<rparr>))"
    using play_audio_chunk [OF assms] by blast
  show ?thesis
    by (rule exI [of _ buffer])
       (simp add: b onmessage_def App_onmessage_def on_interrupted_not on_transcription_None
          audio_chunk_fields App_on_turnComplete_def App_on_inputTranscription_def
          App_on_outputTranscription_def)
qed

lemma schedule_effect:
  "calls (schedule t buffer s) = calls s @ [SourceStart (nodes s) (max (nextStartTimeRef s) t)]"
  "nextStartTimeRef (schedule t buffer s) = max (nextStartTimeRef s) t + duration buffer"
  "sourcesRef (schedule t buffer s) = sourcesRef s @ [\<lparr>node = nodes s, started = True\<rparr>]"
  by (simp_all add: schedule_def Let_def)

lemma chunk_step:
  assumes "playable b"
  shows "calls (onmessage t n (audio_chunk b) s) =
           calls s @ [SourceStart (nodes s) (max (nextStartTimeRef s) t)]"
    and "nextStartTimeRef (onmessage t n (audio_chunk b) s) =
           max (nextStartTimeRef s) t + chunk_duration b"
    and "calls (App_onmessage t n (audio_chunk b) s) =
           calls s @ [SourceStart (nodes s) (max (nextStartTimeRef s) t)]"
    and "nextStartTimeRef (App_onmessage t n (audio_chunk b) s) =
           max (nextStartTimeRef s) t + chunk_duration b"
  using onmessage_audio_chunk [OF assms, of t n s] by (auto simp: schedule_effect)

lemma play_chunks_starts:
  assumes "h = onmessage \<or> h = App_onmessage"
    and "list_all (\<lambda>c. playable (snd c)) chunks"
  shows "start_times (calls (play_chunks h chunks s)) =
         start_times (calls s) @
         expected_starts (nextStartTimeRef s) (map (\<lambda>c. (fst c, chunk_duration (snd c))) chunks)"
  using assms(2)
proof (induction chunks arbitrary: s)
  case Nil
  then show ?case by (simp add: play_chunks_def)
next
  case (Cons c chunks)
  then have p: "playable (snd c)" and rest: "list_all (\<lambda>c. playable (snd c)) chunks"
    by simp_all
  let ?s = "h (fst c) 0 (audio_chunk (snd c)) s"
  have c: "calls ?s = calls s @ [SourceStart (nodes s) (max (nextStartTimeRef s) (fst c))]"
    and n: "nextStartTimeRef ?s = max (nextStartTimeRef s) (fst c) + chunk_duration (snd c)"
    using assms(1) chunk_step [OF p] by auto
  have "play_chunks h (c # chunks) s = play_chunks h chunks ?s"
    by (simp add: play_chunks_def)
  then show ?case
    using Cons.IH [OF rest, of ?s] by (simp add: c n start_times_append Let_def)
qed

lemma expected_starts_example:
  assumes "0 \<le> t0"
  shows "expected_starts 0 [(t0, 1 / 2), (t0 + 1 / 10, 3 / 10), (t0 + 9 / 10, 2 / 5)] =
         [t0, t0 + 1 / 2, t0 + 9 / 10]"
  using assms by (simp add: Let_def max_def)

text \<open>
  C4: for every sequence of audio chunks that decode, each given by the playback clock
  at its arrival and its payload, the start times passed to \<^verbatim>\<open>start()\<close> are those of
  the rule \<open>start = max(nextStart, now)\<close>, \<open>nextStart = start + d\<close>, in the page and in
  the application; one chunk moves the cursor to \<open>max(nextStart, now) + d\<close>; and
  chunks of 0.5 s, 0.3 s and 0.4 s arriving at \<open>t0\<close>, \<open>t0 + 0.1\<close> and \<open>t0 + 0.9\<close> in
  the initial state, where the cursor is 0 and \<open>t0\<close> is a clock reading (not
  negative), start at \<open>t0\<close>, \<open>t0 + 0.5\<close> and \<open>t0 + 0.9\<close>.
\<close>

theorem playback_schedule:
  assumes "list_all (\<lambda>c. playable (snd c)) chunks"
    and "playable b1" and "playable b2" and "playable b3"
    and "chunk_duration b1 = 1 / 2" and "chunk_duration b2 = 3 / 10"
    and "chunk_duration b3 = 2 / 5"
    and "0 \<le> t0"
  shows "start_times (calls (play_chunks onmessage chunks s)) =
           start_times (calls s) @
           expected_starts (nextStartTimeRef s) (map (\<lambda>c. (fst c, chunk_duration (snd c))) chunks)
       \<and> start_times (calls (play_chunks App_onmessage chunks s)) =
           start_times (calls s) @
           expected_starts (nextStartTimeRef s) (map (\<lambda>c. (fst c, chunk_duration (snd c))) chunks)
       \<and> calls (onmessage t n (audio_chunk b1) s) =
           calls s @ [SourceStart (nodes s) (max (nextStartTimeRef s) t)]
       \<and> nextStartTimeRef (onmessage t n (audio_chunk b1) s) =
           max (nextStartTimeRef s) t + chunk_duration b1
       \<and> calls (App_onmessage t n (audio_chunk b1) s) =
           calls s @ [SourceStart (nodes s) (max (nextStartTimeRef s) t)]
       \<and> nextStartTimeRef (App_onmessage t n (audio_chunk b1) s) =
           max (nextStartTimeRef s) t + chunk_duration b1
       \<and> start_times (calls (play_chunks onmessage
             [(t0, b1), (t0 + 1 / 10, b2), (t0 + 9 / 10, b3)] initial)) =
           [t0, t0 + 1 / 2, t0 + 9 / 10]
       \<and> start_times (calls (play_chunks App_onmessage
             [(t0, b1), (t0 + 1 / 10, b2), (t0 + 9 / 10, b3)] initial)) =
           [t0, t0 + 1 / 2, t0 + 9 / 10]"
proof -
  let ?three = "[(t0, b1), (t0 + 1 / 10, b2), (t0 + 9 / 10, b3)]"
  have three: "list_all (\<lambda>c. playable (snd c)) ?three"
    using assms(2-4) by simp
  have init: "calls initial = []" "nextStartTimeRef initial = 0"
    by (simp_all add: initial_def)
  have ex: "expected_starts 0 (map (\<lambda>c. (fst c, chunk_duration (snd c))) ?three) =
      [t0, t0 + 1 / 2, t0 + 9 / 10]"
    using expected_starts_example [OF assms(8)] by (simp add: assms(5-7))
  have "start_times (calls (play_chunks h ?three initial)) = [t0, t0 + 1 / 2, t0 + 9 / 10]"
    if "h = onmessage \<or> h = App_onmessage" for h
    using play_chunks_starts [OF that three, of initial] by (simp only: init ex start_times.simps append_Nil)
  then show ?thesis
    using play_chunks_starts [OF _ assms(1), of onmessage s]
      play_chunks_starts [OF _ assms(1), of App_onmessage s]
      chunk_step [OF assms(2), of t n s]
    by simp
qed

theorem playback_schedule_witness:
  "list_all (\<lambda>c. playable (snd c)) [(0, silence 1)]
   \<and> playable (silence 12000) \<and> playable (silence 7200) \<and> playable (silence 9600)
   \<and> chunk_duration (silence 12000) = 1 / 2 \<and> chunk_duration (silence 7200) = 3 / 10
   \<and> chunk_duration (silence 9600) = 2 / 5 \<and> (0 :: real) \<le> 1
   \<and> start_times (calls (play_chunks onmessage
         [(1, silence 12000), (1 + 1 / 10, silence 7200), (1 + 9 / 10, silence 9600)] initial)) =
       [1, 1 + 1 / 2, 1 + 9 / 10]
   \<and> start_times (calls (play_chunks App_onmessage
         [(1, silence 12000), (1 + 1 / 10, silence 7200), (1 + 9 / 10, silence 9600)] initial)) =
       [1, 1 + 1 / 2, 1 + 9 / 10]
   \<and> nextStartTimeRef (onmessage 0 0 (audio_chunk (silence 12000)) initial) = 1 / 2"
proof -
  have h1: "list_all (\<lambda>c. playable (snd c)) [(0 :: real, silence 1)]"
    by (simp add: silence_playable)
  have p: "playable (silence 12000)" "playable (silence 7200)" "playable (silence 9600)"
    by (simp_all add: silence_playable)
  have d: "chunk_duration (silence 12000) = 1 / 2" "chunk_duration (silence 7200) = 3 / 10"
    "chunk_duration (silence 9600) = 2 / 5"
    by (simp_all add: silence_playable)
  have t: "(0 :: real) \<le> 1" by simp
  have i: "nextStartTimeRef initial = 0" by (simp add: initial_def)
  show ?thesis
    using playback_schedule [OF h1 p d t, of initial 0 0] h1 p d i by simp
qed

subsection \<open>Interruption\<close>

lemma on_transcription_kept:
  "sourcesRef (on_transcription r tr now s) = sourcesRef s"
  "nextStartTimeRef (on_transcription r tr now s) = nextStartTimeRef s"
  "calls (on_transcription r tr now s) = calls s"
  "isModelSpeaking (on_transcription r tr now s) = isModelSpeaking s"
  "nodes (on_transcription r tr now s) = nodes s"
  "transcriptionRef (on_transcription r tr now s) = transcriptionRef s"
  by (simp_all add: on_transcription_def split: option.splits)

lemma App_transcription_kept:
  "sourcesRef (App_on_turnComplete msg now s) = sourcesRef s"
  "nextStartTimeRef (App_on_turnComplete msg now s) = nextStartTimeRef s"
  "calls (App_on_turnComplete msg now s) = calls s"
  "isModelSpeaking (App_on_turnComplete msg now s) = isModelSpeaking s"
  "nodes (App_on_turnComplete msg now s) = nodes s"
  "sourcesRef (App_on_inputTranscription msg s) = sourcesRef s"
  "nextStartTimeRef (App_on_inputTranscription msg s) = nextStartTimeRef s"
  "calls (App_on_inputTranscription msg s) = calls s"
  "isModelSpeaking (App_on_inputTranscription msg s) = isModelSpeaking s"
  "nodes (App_on_inputTranscription msg s) = nodes s"
  "sourcesRef (App_on_outputTranscription msg s) = sourcesRef s"
  "nextStartTimeRef (App_on_outputTranscription msg s) = nextStartTimeRef s"
  "calls (App_on_outputTranscription msg s) = calls s"
  "isModelSpeaking (App_on_outputTranscription msg s) = isModelSpeaking s"
  "nodes (App_on_outputTranscription msg s) = nodes s"
  by (simp_all add: App_on_turnComplete_def App_on_inputTranscription_def
        App_on_outputTranscription_def Let_def split: option.splits)

lemma foldl_try_stop:
  "foldl try_stop cs xs = cs @ map (\<lambda>source. SourceStop (node source)) (filter started xs)"
  by (induction xs arbitrary: cs) (simp_all add: try_stop_def stop_def)

lemma on_interrupted_effect:
  assumes "interrupted msg"
  shows "sourcesRef (on_interrupted msg s) = []"
    and "nextStartTimeRef (on_interrupted msg s) = 0"
    and "isModelSpeaking (on_interrupted msg s) = False"
    and "calls (on_interrupted msg s) =
           calls s @ map (\<lambda>source. SourceStop (node source)) (filter started (sourcesRef s))"
    and "nodes (on_interrupted msg s) = nodes s"
  using assms by (simp_all add: on_interrupted_def stop_sources_def foldl_try_stop)

lemma onmessage_interrupted:
  assumes "interrupted msg" and "play currentTime msg s = Inr s1"
  shows "sourcesRef (onmessage currentTime now msg s) = []
       \<and> nextStartTimeRef (onmessage currentTime now msg s) = 0
       \<and> isModelSpeaking (onmessage currentTime now msg s) = False
       \<and> calls (onmessage currentTime now msg s) =
           calls s1 @ map (\<lambda>source. SourceStop (node source)) (filter started (sourcesRef s1))
       \<and> sourcesRef (App_onmessage currentTime now msg s) = []
       \<and> nextStartTimeRef (App_onmessage currentTime now msg s) = 0
       \<and> isModelSpeaking (App_onmessage currentTime now msg s) = False
       \<and> calls (App_onmessage currentTime now msg s) =
           calls s1 @ map (\<lambda>source. SourceStop (node source)) (filter started (sourcesRef s1))"
  by (simp add: onmessage_def App_onmessage_def assms(2) on_transcription_kept
        App_transcription_kept on_interrupted_effect [OF assms(1)])

lemma play_no_audio: "audio msg = None \<Longrightarrow> play t msg s = Inr s"
  by (simp add: play_def)

text \<open>
  C2, as amended: when a message with \<^verbatim>\<open>interrupted\<close> set has been handled (its
  audio part, if any, raising nothing), the set of sources is empty, \<^verbatim>\<open>stop()\<close> has
  been called on every source that was in it, and the cursor is 0, however much audio
  was queued; so the next buffer scheduled, at a clock reading \<open>t\<close>, starts at \<open>t\<close>.
\<close>

theorem interrupted_resets_playback:
  assumes "interrupted msg" and "play currentTime msg s = Inr s1" and "0 \<le> t"
  shows "sourcesRef (onmessage currentTime now msg s) = []
       \<and> nextStartTimeRef (onmessage currentTime now msg s) = 0
       \<and> calls (onmessage currentTime now msg s) =
           calls s1 @ map (\<lambda>source. SourceStop (node source)) (filter started (sourcesRef s1))
       \<and> start_times (calls (schedule t buffer (onmessage currentTime now msg s))) =
           start_times (calls (onmessage currentTime now msg s)) @ [t]
       \<and> sourcesRef (App_onmessage currentTime now msg s) = []
       \<and> nextStartTimeRef (App_onmessage currentTime now msg s) = 0
       \<and> calls (App_onmessage currentTime now msg s) =
           calls s1 @ map (\<lambda>source. SourceStop (node source)) (filter started (sourcesRef s1))
       \<and> start_times (calls (schedule t buffer (App_onmessage currentTime now msg s))) =
           start_times (calls (App_onmessage currentTime now msg s)) @ [t]"
proof -
  note i = onmessage_interrupted [OF assms(1,2), of now]
  have "start_times (calls (schedule t buffer s')) = start_times (calls s') @ [t]"
    if "nextStartTimeRef s' = 0" for s'
    using that assms(3) by (simp add: schedule_effect start_times_append)
  then show ?thesis using i by simp
qed

lemma queued_state:
  "nextStartTimeRef (play_chunks h [(0, silence 24000)] initial) = 1"
  "sourcesRef (play_chunks h [(0, silence 24000)] initial) = [\<lparr>node = 0, started = True\<rparr>]"
  "calls (play_chunks h [(0, silence 24000)] initial) = [SourceStart 0 0]"
  if "h = onmessage \<or> h = App_onmessage"
proof -
  have p: "playable (silence 24000)" and d: "chunk_duration (silence 24000) = 1"
    by (simp_all add: silence_playable)
  obtain buffer where b: "duration buffer = 1"
    "onmessage 0 0 (audio_chunk (silence 24000)) initial =
       schedule 0 buffer (initial\<lparr>isModelSpeaking := True\<rparr>)"
    "App_onmessage 0 0 (audio_chunk (silence 24000)) initial =
       schedule 0 buffer (initial\<lparr>isModelSpeaking := True\<rparr>)"
    using onmessage_audio_chunk [OF p, of 0 0 initial] d by auto
  have s: "play_chunks h [(0, silence 24000)] initial =
      schedule 0 buffer (initial\<lparr>isModelSpeaking := True\<rparr>)"
    using that b by (auto simp: play_chunks_def)
  show "nextStartTimeRef (play_chunks h [(0, silence 24000)] initial) = 1"
    "sourcesRef (play_chunks h [(0, silence 24000)] initial) = [\<lparr>node = 0, started = True\<rparr>]"
    "calls (play_chunks h [(0, silence 24000)] initial) = [SourceStart 0 0]"
    unfolding s by (simp_all add: schedule_effect b(1) initial_def)
qed

theorem interrupted_resets_playback_witness:
  "interrupted (no_content\<lparr>interrupted := True\<rparr>)
   \<and> play (1 / 2) (no_content\<lparr>interrupted := True\<rparr>)
        (play_chunks onmessage [(0, silence 24000)] initial) =
       Inr (play_chunks onmessage [(0, silence 24000)] initial)
   \<and> (0 :: real) \<le> 3 / 4
   \<and> sourcesRef (play_chunks onmessage [(0, silence 24000)] initial) = [\<lparr>node = 0, started = True\<rparr>]
   \<and> sourcesRef (onmessage (1 / 2) 0 (no_content\<lparr>interrupted := True\<rparr>)
        (play_chunks onmessage [(0, silence 24000)] initial)) = []
   \<and> nextStartTimeRef (onmessage (1 / 2) 0 (no_content\<lparr>interrupted := True\<rparr>)
        (play_chunks onmessage [(0, silence 24000)] initial)) = 0
   \<and> calls (onmessage (1 / 2) 0 (no_content\<lparr>interrupted := True\<rparr>)
        (play_chunks onmessage [(0, silence 24000)] initial)) = [SourceStart 0 0, SourceStop 0]
   \<and> start_times (calls (schedule (3 / 4)
        \<lparr>numberOfChannels = 1, frames = 1, sampleRate = 24000, channelData = [[0]]\<rparr>
        (onmessage (1 / 2) 0 (no_content\<lparr>interrupted := True\<rparr>)
          (play_chunks onmessage [(0, silence 24000)] initial)))) = [0, 3 / 4]"
proof -
  let ?msg = "no_content\<lparr>interrupted := True\<rparr>"
  let ?s = "play_chunks onmessage [(0, silence 24000)] initial"
  have h1: "interrupted ?msg" by simp
  have h2: "play (1 / 2) ?msg ?s = Inr ?s"
    by (rule play_no_audio) (simp add: no_content_def)
  have h3: "(0 :: real) \<le> 3 / 4" by simp
  show ?thesis
    using interrupted_resets_playback [OF h1 h2 h3, of 0
        "\<lparr>numberOfChannels = 1, frames = 1, sampleRate = 24000, channelData = [[0]]\<rparr>"] h1 h2 queued_state [of onmessage]
    by simp
qed

text \<open>
  C2 as specified has the cursor equal to the playback clock at the interruption.
  With one second of audio queued at clock 0 and the interruption at clock \<open>1/2\<close>, the
  cursor is 0 afterwards, not \<open>1/2\<close>.
\<close>

theorem interrupted_cursor_counterexample:
  "nextStartTimeRef (onmessage (1 / 2) 0 (no_content\<lparr>interrupted := True\<rparr>)
      (play_chunks onmessage [(0, silence 24000)] initial)) \<noteq> 1 / 2
   \<and> nextStartTimeRef (App_onmessage (1 / 2) 0 (no_content\<lparr>interrupted := True\<rparr>)
      (play_chunks App_onmessage [(0, silence 24000)] initial)) \<noteq> 1 / 2"
proof -
  let ?msg = "no_content\<lparr>interrupted := True\<rparr>"
  have h1: "interrupted ?msg" by simp
  have h2: "play (1 / 2) ?msg s = Inr s" for s
    by (rule play_no_audio) (simp add: no_content_def)
  show ?thesis
    using onmessage_interrupted [OF h1 h2, where now = 0] by simp
qed

subsection \<open>The transcript log\<close>

lemma length_slice_last: "length (slice_last n xs) \<le> n"
  by (simp add: slice_last_def)

lemma slice_last_short: "length xs \<le> n \<Longrightarrow> slice_last n xs = xs"
  by (simp add: slice_last_def)

lemma slice_last_slice_last_append:
  "slice_last n (slice_last n xs @ ys) = slice_last n (xs @ ys)"
proof (cases "length xs \<le> n")
  case True
  then show ?thesis by (simp add: slice_last_short)
next
  case False
  then have "length xs - n + (n + length ys - n) = length xs + length ys - n"
    by simp
  then show ?thesis using False
    by (simp add: slice_last_def min_def) (metis add.commute drop_drop drop_append)
qed

lemma append_entry_slice: "append_entry e prev = slice_last 20 (prev @ [e])"
proof -
  have "length prev + 1 - 20 = length prev - 19" by simp
  then show ?thesis by (simp add: append_entry_def slice_last_def)
qed

lemma foldl_append_entry_slice:
  "slice_last 20 (foldl (\<lambda>prev e. append_entry e prev) prev es) = slice_last 20 (prev @ es)"
proof (induction es rule: rev_induct)
  case Nil
  then show ?case by simp
next
  case (snoc e es)
  have "slice_last 20 (foldl (\<lambda>prev e. append_entry e prev) prev (es @ [e])) =
        slice_last 20 (slice_last 20 (foldl (\<lambda>prev e. append_entry e prev) prev es) @ [e])"
    by (simp add: append_entry_slice slice_last_slice_last_append)
       (metis slice_last_slice_last_append append_Nil2)
  also have "\<dots> = slice_last 20 (slice_last 20 (prev @ es) @ [e])"
    by (simp only: snoc.IH)
  also have "\<dots> = slice_last 20 (prev @ es @ [e])"
    by (simp add: slice_last_slice_last_append)
  finally show ?case by simp
qed

lemma foldl_App_append_entries_slice:
  "slice_last 20 (foldl (\<lambda>prev g. App_append_entries g prev) prev gs) =
   slice_last 20 (prev @ concat gs)"
proof (induction gs rule: rev_induct)
  case Nil
  then show ?case by simp
next
  case (snoc g gs)
  have "slice_last 20 (foldl (\<lambda>prev g. App_append_entries g prev) prev (gs @ [g])) =
        slice_last 20 (slice_last 20 (foldl (\<lambda>prev g. App_append_entries g prev) prev gs) @ g)"
    by (simp add: App_append_entries_def slice_last_slice_last_append)
       (metis slice_last_slice_last_append append_Nil2)
  also have "\<dots> = slice_last 20 (slice_last 20 (prev @ concat gs) @ g)"
    by (simp only: snoc.IH)
  also have "\<dots> = slice_last 20 (prev @ concat (gs @ [g]))"
    by (simp add: slice_last_slice_last_append)
  finally show ?case .
qed

lemma length_foldl_append_entry:
  "length prev \<le> 20 \<Longrightarrow> length (foldl (\<lambda>prev e. append_entry e prev) prev es) \<le> 20"
  by (induction es rule: rev_induct) (simp_all add: append_entry_slice length_slice_last)

lemma length_foldl_App_append_entries:
  "length prev \<le> 20 \<Longrightarrow> length (foldl (\<lambda>prev g. App_append_entries g prev) prev gs) \<le> 20"
  by (induction gs rule: rev_induct) (simp_all add: App_append_entries_def length_slice_last)

lemma fifo_page:
  assumes "length prev \<le> 20"
  shows "foldl (\<lambda>prev e. append_entry e prev) prev es = slice_last 20 (prev @ es)"
  using foldl_append_entry_slice [of prev es] length_foldl_append_entry [OF assms, of es]
  by (simp add: slice_last_short)

lemma fifo_App:
  assumes "length prev \<le> 20"
  shows "foldl (\<lambda>prev g. App_append_entries g prev) prev gs = slice_last 20 (prev @ concat gs)"
  using foldl_App_append_entries_slice [of prev gs] length_foldl_App_append_entries [OF assms, of gs]
  by (simp add: slice_last_short)

lemma slice_last_25: "slice_last 20 (map f [0..<25]) = map f [5..<25]"
  by (simp add: slice_last_def drop_map)

lemma play_kept:
  assumes "play t msg s = Inr s1"
  shows "transcriptions s1 = transcriptions s" and "transcriptionRef s1 = transcriptionRef s"
  using assms
  by (auto simp: play_def schedule_def Let_def split: option.splits if_splits sum.splits)

lemma play_raised_kept:
  assumes "play t msg s = Inl (e, s1)"
  shows "transcriptions s1 = transcriptions s" and "transcriptionRef s1 = transcriptionRef s"
  using assms
  by (auto simp: play_def schedule_def Let_def split: option.splits if_splits sum.splits)

lemma on_interrupted_kept:
  "transcriptions (on_interrupted msg s) = transcriptions s"
  "transcriptionRef (on_interrupted msg s) = transcriptionRef s"
  by (simp_all add: on_interrupted_def stop_sources_def)

lemma length_on_transcription:
  "length (transcriptions s) \<le> 20 \<Longrightarrow> length (transcriptions (on_transcription r tr now s)) \<le> 20"
  by (simp add: on_transcription_def append_entry_slice length_slice_last split: option.splits)

lemma length_App_on_turnComplete:
  "length (transcriptions s) \<le> 20 \<Longrightarrow> length (transcriptions (App_on_turnComplete msg now s)) \<le> 20"
  by (simp add: App_on_turnComplete_def App_append_entries_def length_slice_last Let_def)

lemma App_on_transcription_kept:
  "transcriptions (App_on_inputTranscription msg s) = transcriptions s"
  "transcriptions (App_on_outputTranscription msg s) = transcriptions s"
  by (simp_all add: App_on_inputTranscription_def App_on_outputTranscription_def split: option.splits)

lemma length_onmessage:
  assumes "length (transcriptions s) \<le> 20"
  shows "length (transcriptions (onmessage t now msg s)) \<le> 20"
    and "length (transcriptions (App_onmessage t now msg s)) \<le> 20"
proof -
  show "length (transcriptions (onmessage t now msg s)) \<le> 20"
  proof (cases "play t msg s")
    case (Inl a)
    then show ?thesis using assms play_raised_kept(1) [of t msg s "fst a" "snd a"]
      by (cases a) (simp add: onmessage_def)
  next
    case (Inr s1)
    then show ?thesis using assms play_kept(1) [OF Inr]
      by (simp add: onmessage_def length_on_transcription on_interrupted_kept)
  qed
  show "length (transcriptions (App_onmessage t now msg s)) \<le> 20"
  proof (cases "play t msg s")
    case (Inl a)
    then show ?thesis using assms play_raised_kept(1) [of t msg s "fst a" "snd a"]
      by (cases a) (simp add: App_onmessage_def)
  next
    case (Inr s1)
    then show ?thesis using assms play_kept(1) [OF Inr]
      by (simp add: App_onmessage_def length_App_on_turnComplete App_on_transcription_kept
            on_interrupted_kept)
  qed
qed

lemma release_raises:
  assumes "release s = Inl e"
  shows "e = Error" and "close_raises s"
  using assms
  by (auto simp: release_def release_session_def session_close_def close_raises_def
        split: option.splits sum.splits if_splits)

lemma release_returns:
  assumes "release s = Inr s'"
  shows "\<not> close_raises s"
    and "sessionRef s' = None" and "sourcesRef s' = []"
    and "inputAudioCtxRef s' = None" and "outputAudioCtxRef s' = None"
    and "calls s' = calls s @ release_calls s"
    and "status s' = status s" and "transcriptions s' = transcriptions s"
    and "timers s' = timers s" and "error s' = error s" and "faulty s' = faulty s"
    and "rejections s' = rejections s" and "length (sessions s') = length (sessions s)"
  using assms
  by (auto simp: release_def release_session_def release_audio_def session_close_def
        close_raises_def release_calls_def stop_sources_def foldl_try_stop Let_def
        split: option.splits sum.splits if_splits)

lemma release_total:
  "close_raises s \<Longrightarrow> release s = Inl Error"
  "\<not> close_raises s \<Longrightarrow> \<exists>s'. release s = Inr s'"
  by (auto simp: release_def release_session_def session_close_def close_raises_def
        split: option.splits sum.splits)

lemma cleanup_transcriptions:
  assumes "length (transcriptions s) \<le> 20"
  shows "length (transcriptions (cleanupCall s)) \<le> 20"
    and "length (transcriptions (App_cleanupCall s)) \<le> 20"
  using assms by (simp_all add: cleanupCall_def App_cleanupCall_def split: sum.splits)

lemma other_handlers_transcriptions:
  "transcriptions (startCall outcome s) = transcriptions s"
  "transcriptions (startCall_catch m s) = transcriptions s"
  "transcriptions (toggle_mute s) = transcriptions s"
  "transcriptions (onopen sid s) = transcriptions s"
  "transcriptions (set_phase sid p s) = transcriptions s"
  "transcriptions (onaudioprocess inputData s) = transcriptions s"
  "transcriptions (App_onaudioprocess sid inputData s) = transcriptions s"
  "transcriptions (onended n s) = transcriptions s"
  "transcriptions (timeout s) = transcriptions s"
  "transcriptions (render s) = transcriptions s"
  by (simp_all add: startCall_def startCall_catch_def create_contexts_def connect_def
        toggle_mute_def onopen_def set_phase_def onaudioprocess_def App_onaudioprocess_def
        onended_def timeout_def render_def Let_def
        split: start_outcome.splits sum.splits option.splits)

lemma App_startCall_transcriptions:
  "length (transcriptions s) \<le> 20 \<Longrightarrow> length (transcriptions (App_startCall outcome s)) \<le> 20"
  by (cases outcome)
     (simp_all add: App_startCall_def App_startCall_catch_def cleanup_transcriptions
        create_contexts_def connect_def Let_def)

lemma step_cap:
  assumes "length (transcriptions s) \<le> 20"
  shows "length (transcriptions (step e s)) \<le> 20"
  using assms
  by (cases e)
     (simp_all add: step_def other_handlers_transcriptions cleanup_transcriptions
        length_onmessage onerror_def onclose_def)

lemma App_step_cap:
  assumes "length (transcriptions s) \<le> 20"
  shows "length (transcriptions (App_step e s)) \<le> 20"
  using assms
  by (cases e)
     (simp_all add: other_handlers_transcriptions cleanup_transcriptions App_startCall_transcriptions
        length_onmessage App_onerror_def App_onclose_def App_startCall_catch_def)

lemma run_cap:
  "length (transcriptions s) \<le> 20 \<Longrightarrow> length (transcriptions (run es s)) \<le> 20"
  unfolding run_def by (induction es arbitrary: s) (simp_all add: step_cap)

lemma App_run_cap:
  "length (transcriptions s) \<le> 20 \<Longrightarrow> length (transcriptions (App_run es s)) \<le> 20"
  unfolding App_run_def by (induction es arbitrary: s) (simp_all add: App_step_cap)

lemma page_delta:
  assumes "audio msg = None" and "\<not> interrupted msg"
    and "inputTranscription msg = Some (Some x)" and "x \<noteq> []"
    and "outputTranscription msg = None"
  shows "transcriptions (onmessage t now msg s) =
         append_entry \<lparr>role = User, entry_text = x, timestamp = now\<rparr> (transcriptions s)"
  using assms
  by (simp add: onmessage_def play_no_audio on_interrupted_not on_transcription_def)

lemma page_deltas:
  assumes "audio msg = None" and "\<not> interrupted msg"
    and "inputTranscription msg = Some (Some x)" and "x \<noteq> []"
    and "outputTranscription msg = None"
  shows "transcriptions (foldl (\<lambda>s now. onmessage t now msg s) s nows) =
         foldl (\<lambda>prev e. append_entry e prev) (transcriptions s)
           (map (\<lambda>now. \<lparr>role = User, entry_text = x, timestamp = now\<rparr>) nows)"
  by (induction nows rule: rev_induct) (simp_all add: page_delta [OF assms])

lemma App_turn:
  assumes "audio msg = None" and "\<not> interrupted msg"
    and "inputTranscription msg = Some (Some x)" and "x \<noteq> []"
    and "outputTranscription msg = None" and "turnComplete msg"
    and "transcriptionRef s = \<lparr>user = [], model = []\<rparr>"
  shows "transcriptions (App_onmessage t now msg s) =
         App_append_entries [\<lparr>role = User, entry_text = x, timestamp = now\<rparr>] (transcriptions s)"
    and "transcriptionRef (App_onmessage t now msg s) = \<lparr>user = [], model = []\<rparr>"
  using assms
  by (simp_all add: App_onmessage_def play_no_audio on_interrupted_not
        App_on_inputTranscription_def App_on_outputTranscription_def App_on_turnComplete_def
        newEntries_def text_string_def Let_def)

lemma App_turns:
  assumes "audio msg = None" and "\<not> interrupted msg"
    and "inputTranscription msg = Some (Some x)" and "x \<noteq> []"
    and "outputTranscription msg = None" and "turnComplete msg"
    and "transcriptionRef s = \<lparr>user = [], model = []\<rparr>"
  shows "transcriptions (foldl (\<lambda>s now. App_onmessage t now msg s) s nows) =
         foldl (\<lambda>prev g. App_append_entries g prev) (transcriptions s)
           (map (\<lambda>now. [\<lparr>role = User, entry_text = x, timestamp = now\<rparr>]) nows)
       \<and> transcriptionRef (foldl (\<lambda>s now. App_onmessage t now msg s) s nows) =
           \<lparr>user = [], model = []\<rparr>"
proof (induction nows rule: rev_induct)
  case Nil
  then show ?case using assms(7) by simp
next
  case (snoc now nows)
  then show ?case
    using App_turn [OF assms(1-6), of "foldl (\<lambda>s now. App_onmessage t now msg s) s nows" t now]
    by simp
qed

text \<open>
  C6: after any sequence of events from the initial state the log has at most 20
  entries, in the page and in the application; appending entries one after the other
  to the empty log with the page's updater, or group after group with the
  application's, leaves the last 20 of all of them in the order of insertion; 25
  entries leave the entries 5 to 24; and so do 25 transcription messages through the
  page's handler, and 25 one-entry turns through the application's.
\<close>

theorem transcript_cap_fifo:
  "length (transcriptions (run es initial)) \<le> 20
   \<and> length (transcriptions (App_run es initial)) \<le> 20
   \<and> foldl (\<lambda>prev e. append_entry e prev) [] entries = slice_last 20 entries
   \<and> foldl (\<lambda>prev g. App_append_entries g prev) [] groups = slice_last 20 (concat groups)
   \<and> foldl (\<lambda>prev e. append_entry e prev) [] (map f [0..<25]) = map f [5..<25]
   \<and> foldl (\<lambda>prev g. App_append_entries g prev) [] (map (\<lambda>i. [f i]) [0..<25]) = map f [5..<25]
   \<and> transcriptions
        (foldl (\<lambda>s now. onmessage t now (no_content\<lparr>inputTranscription := Some (Some ''x'')\<rparr>) s)
           initial [0..<25]) =
       map (\<lambda>now. \<lparr>role = User, entry_text = ''x'', timestamp = now\<rparr>) [5..<25]
   \<and> transcriptions
        (foldl (\<lambda>s now. App_onmessage t now
             (no_content\<lparr>inputTranscription := Some (Some ''x''), turnComplete := True\<rparr>) s)
           initial [0..<25]) =
       map (\<lambda>now. \<lparr>role = User, entry_text = ''x'', timestamp = now\<rparr>) [5..<25]"
proof -
  have i: "transcriptions initial = []" "transcriptionRef initial = \<lparr>user = [], model = []\<rparr>"
    by (simp_all add: initial_def)
  have c: "concat (map (\<lambda>i. [g i]) is) = map g is" for g :: "nat \<Rightarrow> TranscriptionEntry" and "is"
    by (induction "is") simp_all
  have page: "transcriptions
        (foldl (\<lambda>s now. onmessage t now (no_content\<lparr>inputTranscription := Some (Some ''x'')\<rparr>) s)
           initial [0..<25]) =
       map (\<lambda>now. \<lparr>role = User, entry_text = ''x'', timestamp = now\<rparr>) [5..<25]"
    by (subst page_deltas [where x = "''x''"])
       (simp_all add: no_content_def i fifo_page slice_last_25 del: upt_rec_numeral)
  have app: "transcriptions
        (foldl (\<lambda>s now. App_onmessage t now
             (no_content\<lparr>inputTranscription := Some (Some ''x''), turnComplete := True\<rparr>) s)
           initial [0..<25]) =
       map (\<lambda>now. \<lparr>role = User, entry_text = ''x'', timestamp = now\<rparr>) [5..<25]"
    using App_turns [where x = "''x''" and s = initial and t = t and nows = "[0..<25]"
        and msg = "no_content\<lparr>inputTranscription := Some (Some ''x''), turnComplete := True\<rparr>"]
    by (simp add: no_content_def i fifo_App c slice_last_25 del: upt_rec_numeral)
  show ?thesis
    using run_cap [of initial es] App_run_cap [of initial es] page app
    by (simp add: i(1) fifo_page fifo_App c slice_last_25 del: upt_rec_numeral)
qed

lemma App_onmessage_transcript:
  assumes "play currentTime msg s = Inr s1"
  shows "transcriptionRef (App_onmessage currentTime now msg s) =
           (if turnComplete msg then \<lparr>user = [], model = []\<rparr>
            else \<lparr>user = user (transcriptionRef s) @
                     (case inputTranscription msg of None \<Rightarrow> [] | Some t \<Rightarrow> text_string t),
                  model = model (transcriptionRef s) @
                     (case outputTranscription msg of None \<Rightarrow> [] | Some t \<Rightarrow> text_string t)\<rparr>)"
    and "transcriptions (App_onmessage currentTime now msg s) =
           (let uText = user (transcriptionRef s) @
                     (case inputTranscription msg of None \<Rightarrow> [] | Some t \<Rightarrow> text_string t);
                mText = model (transcriptionRef s) @
                     (case outputTranscription msg of None \<Rightarrow> [] | Some t \<Rightarrow> text_string t)
            in if turnComplete msg \<and> \<not> (uText = [] \<and> mText = [])
               then slice_last 20
                      (transcriptions s
                       @ (if uText = [] then []
                          else [\<lparr>role = User, entry_text = uText, timestamp = now\<rparr>])
                       @ (if mText = [] then []
                          else [\<lparr>role = Model, entry_text = mText, timestamp = now\<rparr>]))
               else transcriptions s)"
proof -
  note k = play_kept [OF assms] on_interrupted_kept
  show "transcriptionRef (App_onmessage currentTime now msg s) =
           (if turnComplete msg then \<lparr>user = [], model = []\<rparr>
            else \<lparr>user = user (transcriptionRef s) @
                     (case inputTranscription msg of None \<Rightarrow> [] | Some t \<Rightarrow> text_string t),
                  model = model (transcriptionRef s) @
                     (case outputTranscription msg of None \<Rightarrow> [] | Some t \<Rightarrow> text_string t)\<rparr>)"
    by (simp add: App_onmessage_def assms App_on_turnComplete_def App_on_inputTranscription_def
          App_on_outputTranscription_def k Let_def split: option.splits)
  show "transcriptions (App_onmessage currentTime now msg s) =
           (let uText = user (transcriptionRef s) @
                     (case inputTranscription msg of None \<Rightarrow> [] | Some t \<Rightarrow> text_string t);
                mText = model (transcriptionRef s) @
                     (case outputTranscription msg of None \<Rightarrow> [] | Some t \<Rightarrow> text_string t)
            in if turnComplete msg \<and> \<not> (uText = [] \<and> mText = [])
               then slice_last 20
                      (transcriptions s
                       @ (if uText = [] then []
                          else [\<lparr>role = User, entry_text = uText, timestamp = now\<rparr>])
                       @ (if mText = [] then []
                          else [\<lparr>role = Model, entry_text = mText, timestamp = now\<rparr>]))
               else transcriptions s)"
  proof -
    let ?s2 = "App_on_outputTranscription msg (App_on_inputTranscription msg (on_interrupted msg s1))"
    have r: "transcriptionRef ?s2 =
        \<lparr>user = user (transcriptionRef s) @
                     (case inputTranscription msg of None \<Rightarrow> [] | Some t \<Rightarrow> text_string t),
         model = model (transcriptionRef s) @
                     (case outputTranscription msg of None \<Rightarrow> [] | Some t \<Rightarrow> text_string t)\<rparr>"
      by (simp add: App_on_inputTranscription_def App_on_outputTranscription_def k
            split: option.splits)
    have t: "transcriptions ?s2 = transcriptions s"
      by (simp add: App_on_transcription_kept k)
    have "transcriptions (App_on_turnComplete msg now s') =
        (let uText = user (transcriptionRef s'); mText = model (transcriptionRef s')
         in if turnComplete msg \<and> \<not> (uText = [] \<and> mText = [])
            then slice_last 20
                   (transcriptions s'
                    @ (if uText = [] then []
                       else [\<lparr>role = User, entry_text = uText, timestamp = now\<rparr>])
                    @ (if mText = [] then []
                       else [\<lparr>role = Model, entry_text = mText, timestamp = now\<rparr>]))
            else transcriptions s')" for s'
      by (simp add: App_on_turnComplete_def App_append_entries_def newEntries_def Let_def)
    from this [of ?s2] show ?thesis
      unfolding App_onmessage_def assms sum.case r t
      by (simp only: Let_def transcription.select_convs)
  qed
qed

lemma page_onmessage_transcript:
  assumes "play currentTime msg s = Inr s1"
  shows "transcriptions (onmessage currentTime now msg s) =
           (let prev = (case inputTranscription msg of
                          Some (Some t) \<Rightarrow>
                            if t = [] then transcriptions s
                            else slice_last 19 (transcriptions s)
                                 @ [\<lparr>role = User, entry_text = t, timestamp = now\<rparr>]
                        | _ \<Rightarrow> transcriptions s)
            in case outputTranscription msg of
                 Some (Some t) \<Rightarrow>
                   if t = [] then prev
                   else slice_last 19 prev @ [\<lparr>role = Model, entry_text = t, timestamp = now\<rparr>]
               | _ \<Rightarrow> prev)"
    and "transcriptionRef (onmessage currentTime now msg s) = transcriptionRef s"
  using play_kept [OF assms]
  by (simp_all add: onmessage_def assms on_transcription_def on_transcription_kept
        on_interrupted_kept append_entry_def Let_def split: option.splits)

lemma defined_text:
  assumes "tr \<noteq> Some None"
  shows "(case tr of None \<Rightarrow> [] | Some t \<Rightarrow> text_string t) =
         (case tr of Some (Some t) \<Rightarrow> t | _ \<Rightarrow> [])"
  using assms by (simp add: text_string_def split: option.splits)

text \<open>
  C5, as amended: in the application, when a message has been handled whose audio
  part, if any, raised nothing and whose transcription parts, if any, carry a text,
  the buffers hold the texts accumulated per role unless the turn is complete; at
  turn-complete the log receives one entry for the user buffer if it is not empty,
  then one for the model buffer if it is not empty, with the time of the handler,
  keeps its last 20 entries, and both buffers are cleared; when both are empty the log
  is unchanged. The page has no buffers: when its audio part raised nothing, it
  appends every non-empty delta at once as an entry of its own, the user's first, and
  turn-complete has no part in it.
\<close>

theorem App_transcript_assembly:
  assumes "play currentTime msg s = Inr s1"
    and "inputTranscription msg \<noteq> Some None"
    and "outputTranscription msg \<noteq> Some None"
  shows "transcriptionRef (App_onmessage currentTime now msg s) =
           (if turnComplete msg then \<lparr>user = [], model = []\<rparr>
            else \<lparr>user = user (transcriptionRef s) @
                     (case inputTranscription msg of Some (Some t) \<Rightarrow> t | _ \<Rightarrow> []),
                  model = model (transcriptionRef s) @
                     (case outputTranscription msg of Some (Some t) \<Rightarrow> t | _ \<Rightarrow> [])\<rparr>)
       \<and> transcriptions (App_onmessage currentTime now msg s) =
           (let uText = user (transcriptionRef s) @
                     (case inputTranscription msg of Some (Some t) \<Rightarrow> t | _ \<Rightarrow> []);
                mText = model (transcriptionRef s) @
                     (case outputTranscription msg of Some (Some t) \<Rightarrow> t | _ \<Rightarrow> [])
            in if turnComplete msg \<and> \<not> (uText = [] \<and> mText = [])
               then slice_last 20
                      (transcriptions s
                       @ (if uText = [] then []
                          else [\<lparr>role = User, entry_text = uText, timestamp = now\<rparr>])
                       @ (if mText = [] then []
                          else [\<lparr>role = Model, entry_text = mText, timestamp = now\<rparr>]))
               else transcriptions s)
       \<and> transcriptions (onmessage currentTime now msg s) =
           (let prev = (case inputTranscription msg of
                          Some (Some t) \<Rightarrow>
                            if t = [] then transcriptions s
                            else slice_last 19 (transcriptions s)
                                 @ [\<lparr>role = User, entry_text = t, timestamp = now\<rparr>]
                        | _ \<Rightarrow> transcriptions s)
            in case outputTranscription msg of
                 Some (Some t) \<Rightarrow>
                   if t = [] then prev
                   else slice_last 19 prev @ [\<lparr>role = Model, entry_text = t, timestamp = now\<rparr>]
               | _ \<Rightarrow> prev)
       \<and> transcriptionRef (onmessage currentTime now msg s) = transcriptionRef s"
  using App_onmessage_transcript [OF assms(1), of now] page_onmessage_transcript [OF assms(1), of now]
  by (simp only: defined_text [OF assms(2)] defined_text [OF assms(3)] simp_thms)

theorem App_transcript_assembly_witness:
  "play 0 (no_content\<lparr>inputTranscription := Some (Some ''there''), turnComplete := True\<rparr>)
      (initial\<lparr>transcriptionRef := \<lparr>user = ''hi '', model = ''yo''\<rparr>\<rparr>) =
     Inr (initial\<lparr>transcriptionRef := \<lparr>user = ''hi '', model = ''yo''\<rparr>\<rparr>)
   \<and> inputTranscription
        (no_content\<lparr>inputTranscription := Some (Some ''there''), turnComplete := True\<rparr>) \<noteq> Some None
   \<and> outputTranscription
        (no_content\<lparr>inputTranscription := Some (Some ''there''), turnComplete := True\<rparr>) \<noteq> Some None
   \<and> transcriptionRef
        (App_onmessage 0 5 (no_content\<lparr>inputTranscription := Some (Some ''there''), turnComplete := True\<rparr>)
          (initial\<lparr>transcriptionRef := \<lparr>user = ''hi '', model = ''yo''\<rparr>\<rparr>)) =
       \<lparr>user = [], model = []\<rparr>
   \<and> transcriptions
        (App_onmessage 0 5 (no_content\<lparr>inputTranscription := Some (Some ''there''), turnComplete := True\<rparr>)
          (initial\<lparr>transcriptionRef := \<lparr>user = ''hi '', model = ''yo''\<rparr>\<rparr>)) =
       [\<lparr>role = User, entry_text = ''hi there'', timestamp = 5\<rparr>,
        \<lparr>role = Model, entry_text = ''yo'', timestamp = 5\<rparr>]
   \<and> transcriptions
        (App_onmessage 0 5 (no_content\<lparr>inputTranscription := Some (Some ''there'')\<rparr>)
          (initial\<lparr>transcriptionRef := \<lparr>user = ''hi '', model = ''yo''\<rparr>\<rparr>)) = []
   \<and> transcriptionRef
        (App_onmessage 0 5 (no_content\<lparr>inputTranscription := Some (Some ''there'')\<rparr>)
          (initial\<lparr>transcriptionRef := \<lparr>user = ''hi '', model = ''yo''\<rparr>\<rparr>)) =
       \<lparr>user = ''hi there'', model = ''yo''\<rparr>
   \<and> transcriptions (App_onmessage 0 5 (no_content\<lparr>turnComplete := True\<rparr>) initial) = []
   \<and> transcriptions
        (onmessage 0 5 (no_content\<lparr>inputTranscription := Some (Some ''there''), turnComplete := True\<rparr>)
          (initial\<lparr>transcriptionRef := \<lparr>user = ''hi '', model = ''yo''\<rparr>\<rparr>)) =
       [\<lparr>role = User, entry_text = ''there'', timestamp = 5\<rparr>]"
proof -
  let ?s = "initial\<lparr>transcriptionRef := \<lparr>user = ''hi '', model = ''yo''\<rparr>\<rparr>"
  let ?m1 = "no_content\<lparr>inputTranscription := Some (Some ''there''), turnComplete := True\<rparr>"
  let ?m2 = "no_content\<lparr>inputTranscription := Some (Some ''there'')\<rparr>"
  let ?m3 = "no_content\<lparr>turnComplete := True\<rparr>"
  have h: "play 0 msg s = Inr s" if "audio msg = None" for msg s
    using that by (rule play_no_audio)
  have h1: "play 0 ?m1 ?s = Inr ?s" and h2: "play 0 ?m2 ?s = Inr ?s"
    and h3: "play 0 ?m3 initial = Inr initial"
    by (rule h, simp add: no_content_def)+
  have d1: "inputTranscription ?m1 \<noteq> Some None" "outputTranscription ?m1 \<noteq> Some None"
    and d2: "inputTranscription ?m2 \<noteq> Some None" "outputTranscription ?m2 \<noteq> Some None"
    and d3: "inputTranscription ?m3 \<noteq> Some None" "outputTranscription ?m3 \<noteq> Some None"
    by (simp_all add: no_content_def)
  show ?thesis
    using App_transcript_assembly [OF h1 d1, of 5] App_transcript_assembly [OF h2 d2, of 5]
      App_transcript_assembly [OF h3 d3, of 5] h1 d1
    by (simp add: no_content_def slice_last_def initial_def)
qed

text \<open>
  C5 as specified has deltas accumulated until the turn is complete, and the buffers
  written to the log and cleared at every turn-complete. In the page a delta
  \<^verbatim>\<open>there\<close> in a message without \<^verbatim>\<open>turnComplete\<close> is in the log at once. In the
  application a turn-complete message whose audio part does not decode (the payload
  \<^verbatim>\<open>A\<close> is no base64 string) ends in the exception: the user buffer \<^verbatim>\<open>hi\<close> is
  neither written to the log nor cleared.
\<close>

theorem page_appends_each_delta:
  "transcriptions
     (onmessage 0 5 (no_content\<lparr>inputTranscription := Some (Some ''there'')\<rparr>) initial) =
   [\<lparr>role = User, entry_text = ''there'', timestamp = 5\<rparr>]
   \<and> \<not> turnComplete (no_content\<lparr>inputTranscription := Some (Some ''there'')\<rparr>)
   \<and> transcriptionRef
     (onmessage 0 5 (no_content\<lparr>inputTranscription := Some (Some ''there'')\<rparr>) initial) =
     \<lparr>user = [], model = []\<rparr>
   \<and> transcriptions
     (App_onmessage 0 5 (no_content\<lparr>audio := Some [65], turnComplete := True\<rparr>)
       (initial\<lparr>transcriptionRef := \<lparr>user = ''hi'', model = []\<rparr>\<rparr>)) = []
   \<and> transcriptionRef
     (App_onmessage 0 5 (no_content\<lparr>audio := Some [65], turnComplete := True\<rparr>)
       (initial\<lparr>transcriptionRef := \<lparr>user = ''hi'', model = []\<rparr>\<rparr>)) =
     \<lparr>user = ''hi'', model = []\<rparr>
   \<and> rejections
     (App_onmessage 0 5 (no_content\<lparr>audio := Some [65], turnComplete := True\<rparr>)
       (initial\<lparr>transcriptionRef := \<lparr>user = ''hi'', model = []\<rparr>\<rparr>)) =
     [InvalidCharacterError]"
proof -
  have "decodeChunk [65] = Inl InvalidCharacterError"
    by (simp add: decodeChunk_def decode_def atob_def remove_padding_def is_ascii_whitespace_def)
  then show ?thesis
    by (simp add: onmessage_def App_onmessage_def play_def no_content_def on_interrupted_def
          on_transcription_def append_entry_def slice_last_def initial_def)
qed

subsection \<open>Teardown\<close>

lemmas handlers =
  startCall_def App_startCall_def startCall_catch_def App_startCall_catch_def
  create_contexts_def connect_def onopen_def render_def toggle_mute_def timeout_def
  cleanupCall_def App_cleanupCall_def release_def release_session_def release_audio_def
  stop_sources_def session_close_def
  onerror_def App_onerror_def onclose_def App_onclose_def
  start_button_def App_start_button_def App_end_button_def in_phase_def set_phase_def

lemma cleanupCall_raises:
  assumes "close_raises s"
  shows "cleanupCall s = s\<lparr>rejections := rejections s @ [Error]\<rparr>"
    and "App_cleanupCall s = s\<lparr>rejections := rejections s @ [Error]\<rparr>"
  using release_total(1) [OF assms] by (simp_all add: cleanupCall_def App_cleanupCall_def)

lemma cleanupCall_returns:
  assumes "\<not> close_raises s"
  shows "calls (cleanupCall s) = calls s @ release_calls s"
    and "release_calls (cleanupCall s) = []"
    and "status (cleanupCall s) = ENDED"
    and "rejections (cleanupCall s) = rejections s"
    and "calls (App_cleanupCall s) = calls s @ release_calls s"
    and "release_calls (App_cleanupCall s) = []"
    and "status (App_cleanupCall s) = ENDED"
    and "rejections (App_cleanupCall s) = rejections s"
proof -
  obtain s' where r: "release s = Inr s'"
    using release_total(2) [OF assms] by blast
  note k = release_returns [OF r]
  show "calls (cleanupCall s) = calls s @ release_calls s"
    "release_calls (cleanupCall s) = []"
    "status (cleanupCall s) = ENDED"
    "rejections (cleanupCall s) = rejections s"
    "calls (App_cleanupCall s) = calls s @ release_calls s"
    "release_calls (App_cleanupCall s) = []"
    "status (App_cleanupCall s) = ENDED"
    "rejections (App_cleanupCall s) = rejections s"
    by (simp_all add: cleanupCall_def App_cleanupCall_def r k release_calls_def)
qed

text \<open>
  When nothing is held, an invocation makes no call, however the state was reached:
  after a first invocation that returned, after a close event, or later.
\<close>

lemma cleanupCall_nothing_held:
  assumes "release_calls s = []"
  shows "calls (cleanupCall s) = calls s" and "rejections (cleanupCall s) = rejections s"
    and "calls (App_cleanupCall s) = calls s" and "rejections (App_cleanupCall s) = rejections s"
proof -
  have "sessionRef s = None"
    using assms by (simp add: release_calls_def split: option.splits)
  then have "\<not> close_raises s"
    by (simp add: close_raises_def)
  then show "calls (cleanupCall s) = calls s" "rejections (cleanupCall s) = rejections s"
    "calls (App_cleanupCall s) = calls s" "rejections (App_cleanupCall s) = rejections s"
    using assms by (simp_all add: cleanupCall_returns)
qed

lemma cleanupCall_twice:
  assumes "\<not> close_raises s"
  shows "calls (cleanupCall (cleanupCall s)) = calls s @ release_calls s"
    and "calls (onclose (set_phase sid Closed (cleanupCall s))) = calls s @ release_calls s"
    and "calls (App_cleanupCall (App_cleanupCall s)) = calls s @ release_calls s"
    and "calls (App_onclose (set_phase sid Closed (App_cleanupCall s))) = calls s @ release_calls s"
proof -
  have p: "release_calls (set_phase sid Closed s') = release_calls s'"
    "calls (set_phase sid Closed s') = calls s'" for s'
    by (simp_all add: release_calls_def set_phase_def)
  note r = cleanupCall_returns [OF assms]
  show "calls (cleanupCall (cleanupCall s)) = calls s @ release_calls s"
    using cleanupCall_nothing_held(1) [OF r(2)] r(1) by simp
  show "calls (onclose (set_phase sid Closed (cleanupCall s))) = calls s @ release_calls s"
    using cleanupCall_nothing_held(1) [of "set_phase sid Closed (cleanupCall s)"] r(1,2)
    by (simp add: onclose_def p)
  show "calls (App_cleanupCall (App_cleanupCall s)) = calls s @ release_calls s"
    using cleanupCall_nothing_held(3) [OF r(6)] r(5) by simp
  show "calls (App_onclose (set_phase sid Closed (App_cleanupCall s))) = calls s @ release_calls s"
    using cleanupCall_nothing_held(3) [of "set_phase sid Closed (App_cleanupCall s)"] r(5,6)
    by (simp add: App_onclose_def p)
qed

lemma onmessage_audio_chunk_any:
  assumes "playable b"
  shows "\<exists>buffer. \<forall>t n s.
           onmessage t n (audio_chunk b) s = schedule t buffer (s\<lparr>isModelSpeaking := True\<rparr>) \<and>
           App_onmessage t n (audio_chunk b) s = schedule t buffer (s\<lparr>isModelSpeaking := True\<rparr>)"
proof -
  obtain buffer where b: "decodeChunk b = Inr buffer"
    using onmessage_audio_chunk [OF assms] by blast
  have "onmessage t n (audio_chunk b) s = schedule t buffer (s\<lparr>isModelSpeaking := True\<rparr>) \<and>
        App_onmessage t n (audio_chunk b) s = schedule t buffer (s\<lparr>isModelSpeaking := True\<rparr>)"
    for t n s
    using onmessage_audio_chunk [OF assms, of t n s] b by auto
  then show ?thesis by blast
qed

text \<open>
  C7: every release step is to be guarded, so that the failure of one resource does
  not keep the others from being released, and no exception is to leave the teardown.
  The stop of a source and the close of an audio context are guarded against failure;
  the close of the session is guarded against absence only. In an active call with
  one source scheduled, whose session raises on \<^verbatim>\<open>close()\<close>, the hang-up releases
  nothing: no call is made, the session, the source and both contexts stay held, the
  status stays \<^verbatim>\<open>ACTIVE\<close>, the exception leaves the handler, and a second hang-up
  does the same. It is so in the page and in the application.
\<close>

theorem cleanupCall_session_close_unguarded:
  "release_calls
     (run [ClickStart Connecting, Open 0, Message 0 0 0 (audio_chunk (silence 1))]
        (initial\<lparr>faulty := {0}\<rparr>)) =
     [SessionClose 0, SourceStop 0, ContextClose 0, ContextClose 1]
   \<and> calls
     (run [ClickStart Connecting, Open 0, Message 0 0 0 (audio_chunk (silence 1)), ClickEndCall]
        (initial\<lparr>faulty := {0}\<rparr>)) = [Connect, SourceStart 0 0]
   \<and> release_calls
     (run [ClickStart Connecting, Open 0, Message 0 0 0 (audio_chunk (silence 1)), ClickEndCall]
        (initial\<lparr>faulty := {0}\<rparr>)) =
     [SessionClose 0, SourceStop 0, ContextClose 0, ContextClose 1]
   \<and> status
     (run [ClickStart Connecting, Open 0, Message 0 0 0 (audio_chunk (silence 1)), ClickEndCall]
        (initial\<lparr>faulty := {0}\<rparr>)) = ACTIVE
   \<and> rejections
     (run [ClickStart Connecting, Open 0, Message 0 0 0 (audio_chunk (silence 1)), ClickEndCall]
        (initial\<lparr>faulty := {0}\<rparr>)) = [Error]
   \<and> calls
     (run [ClickStart Connecting, Open 0, Message 0 0 0 (audio_chunk (silence 1)), ClickEndCall,
           ClickEndCall] (initial\<lparr>faulty := {0}\<rparr>)) = [Connect, SourceStart 0 0]
   \<and> rejections
     (run [ClickStart Connecting, Open 0, Message 0 0 0 (audio_chunk (silence 1)), ClickEndCall,
           ClickEndCall] (initial\<lparr>faulty := {0}\<rparr>)) = [Error, Error]
   \<and> calls
     (App_run [ClickStart Connecting, Open 0, Message 0 0 0 (audio_chunk (silence 1)), ClickEndCall]
        (initial\<lparr>faulty := {0}\<rparr>)) = [Connect, SourceStart 0 0]
   \<and> release_calls
     (App_run [ClickStart Connecting, Open 0, Message 0 0 0 (audio_chunk (silence 1)), ClickEndCall]
        (initial\<lparr>faulty := {0}\<rparr>)) =
     [SessionClose 0, SourceStop 0, ContextClose 0, ContextClose 1]
   \<and> status
     (App_run [ClickStart Connecting, Open 0, Message 0 0 0 (audio_chunk (silence 1)), ClickEndCall]
        (initial\<lparr>faulty := {0}\<rparr>)) = ACTIVE
   \<and> rejections
     (App_run [ClickStart Connecting, Open 0, Message 0 0 0 (audio_chunk (silence 1)), ClickEndCall]
        (initial\<lparr>faulty := {0}\<rparr>)) = [Error]"
proof -
  have "playable (silence 1)" by (simp add: silence_playable)
  then obtain buffer where b: "\<And>t n s.
      onmessage t n (audio_chunk (silence 1)) s = schedule t buffer (s\<lparr>isModelSpeaking := True\<rparr>)"
    "\<And>t n s.
      App_onmessage t n (audio_chunk (silence 1)) s = schedule t buffer (s\<lparr>isModelSpeaking := True\<rparr>)"
    using onmessage_audio_chunk_any by blast
  note b' = b [unfolded One_nat_def]
  show ?thesis
    by (simp add: run_def App_run_def step_def initial_def handlers b' schedule_def
          release_calls_def Let_def)
qed

subsection \<open>Mute\<close>

lemma createPcmBlob_returns: "\<exists>pcmBlob. createPcmBlob samples = Inr pcmBlob"
proof -
  obtain s where "encode (concat (map int16_bytes (map (\<lambda>x. ToInt16 (x * 32768)) samples))) = Inr s"
    using decode_encode by blast
  then show ?thesis by (simp add: createPcmBlob_def)
qed

lemma sends_append: "sends (s\<lparr>calls := calls s @ cs\<rparr>) = sends s + length (filter is_send cs)"
  by (simp add: sends_def)

lemma sends_App_onaudioprocess:
  "sends (App_onaudioprocess sid inputData s) =
     (if closure_isMuted (sessions s ! sid) then sends s else sends s + 1)"
proof -
  obtain pcmBlob where "createPcmBlob inputData = Inr pcmBlob"
    using createPcmBlob_returns by blast
  then show ?thesis by (simp add: App_onaudioprocess_def sends_def)
qed

lemma sends_onaudioprocess:
  "sends (onaudioprocess inputData s) =
     (if isMutedRef s \<or> sessionRef s = None then sends s else sends s + 1)"
proof -
  obtain pcmBlob where "createPcmBlob inputData = Inr pcmBlob"
    using createPcmBlob_returns by blast
  then show ?thesis by (auto simp: onaudioprocess_def sends_def split: option.splits)
qed

lemma isMutedRef_step: "isMutedRef (step e s) = isMuted (step e s)"
  by (simp add: step_def render_def)

lemma sends_render: "sends (render s) = sends s"
  by (simp add: sends_def render_def)

lemma page_mute_gate:
  "sends (step (AudioProcess sid inputData) (step e s)) =
     (if isMuted (step e s) \<or> sessionRef (step e s) = None
         \<or> \<not> in_phase sid {Live, Closing, Closed} (step e s)
      then sends (step e s) else sends (step e s) + 1)"
  using isMutedRef_step [of e s]
  by (simp add: step_def [of "AudioProcess sid inputData"] sends_render sends_onaudioprocess)

lemma App_run_snoc: "App_run (es @ [e]) s = App_step e (App_run es s)"
  by (simp add: App_run_def)

text \<open>
  C1: every frame is to test the current mute flag. In the application a call
  started unmuted keeps sending after the mute button was pressed: with the flag set
  and no payload sent so far, the next frame is sent. And a call started while the
  flag was still set from the call before sends nothing after the flag is cleared.
\<close>

theorem App_mute_read_from_closure:
  "isMuted (App_run [ClickStart Connecting, Open 0, ClickMute] initial)
   \<and> sends (App_run [ClickStart Connecting, Open 0, ClickMute] initial) = 0
   \<and> sends (App_run [ClickStart Connecting, Open 0, ClickMute, AudioProcess 0 [0]] initial) = 1
   \<and> \<not> isMuted (App_run [ClickStart Connecting, Open 0, ClickMute, ClickEndCall,
          ClickStart Connecting, Open 1, ClickMute] initial)
   \<and> sends (App_run [ClickStart Connecting, Open 0, ClickMute, ClickEndCall,
          ClickStart Connecting, Open 1, ClickMute, AudioProcess 1 [0]] initial) = 0"
proof -
  let ?a = "[ClickStart Connecting, Open 0, ClickMute]"
  let ?b = "[ClickStart Connecting, Open 0, ClickMute, ClickEndCall,
          ClickStart Connecting, Open 1, ClickMute]"
  have a: "isMuted (App_run ?a initial)" "sends (App_run ?a initial) = 0"
    "in_phase 0 {Live, Closing, Closed} (App_run ?a initial)"
    "\<not> closure_isMuted (sessions (App_run ?a initial) ! 0)"
    by (simp_all add: App_run_def initial_def handlers sends_def)
  have b: "\<not> isMuted (App_run ?b initial)" "sends (App_run ?b initial) = 0"
    "in_phase 1 {Live, Closing, Closed} (App_run ?b initial)"
    "closure_isMuted (sessions (App_run ?b initial) ! 1)"
    by (simp_all add: App_run_def initial_def handlers sends_def)
  have "sends (App_run (?a @ [AudioProcess 0 [0]]) initial) = 1"
    unfolding App_run_snoc using a by (simp add: sends_App_onaudioprocess)
  moreover have "sends (App_run (?b @ [AudioProcess 1 [0]]) initial) = 0"
    unfolding App_run_snoc using b by (simp add: sends_App_onaudioprocess)
  ultimately show ?thesis using a(1,2) b(1) by simp
qed


subsection \<open>The call state machine\<close>

lemma start_rejected:
  assumes "status s = CONNECTING \<or> status s = ACTIVE"
  shows "handle (ClickStart outcome) s = s" and "App_step (ClickStart outcome) s = s"
  using assms by (auto simp: start_button_def App_start_button_def)

lemma cleanup_never_connected:
  assumes "sessions s = []" and "status s \<noteq> ACTIVE"
  shows "never_connected (cleanupCall s)" and "never_connected (App_cleanupCall s)"
proof -
  have "sessions s' = []" if "release s = Inr s'" for s'
    using release_returns(13) [OF that] assms(1) by simp
  then show "never_connected (cleanupCall s)" "never_connected (App_cleanupCall s)"
    using assms
    by (simp_all add: never_connected_def cleanupCall_def App_cleanupCall_def split: sum.splits)
qed

lemma startCall_never_connected:
  assumes "sessions s = []"
  shows "never_connected (startCall outcome s)" and "never_connected (App_startCall outcome s)"
proof -
  have c: "sessions (create_contexts (s\<lparr>status := CONNECTING\<rparr>)\<lparr>status := ERROR\<rparr>) = []"
    "sessions (s\<lparr>status := CONNECTING, status := ERROR\<rparr>) = []"
    using assms by (simp_all add: create_contexts_def)
  show "never_connected (startCall outcome s)"
    using assms
    by (cases outcome)
       (simp_all add: never_connected_def startCall_def startCall_catch_def create_contexts_def
          connect_def Let_def)
  show "never_connected (App_startCall outcome s)"
    using cleanup_never_connected(2) [OF c(1)] cleanup_never_connected(2) [OF c(2)]
    by (cases outcome)
       (simp_all add: App_startCall_def App_startCall_catch_def Let_def never_connected_def
          create_contexts_def connect_def)
qed

lemma render_never_connected: "never_connected (render s) = never_connected s"
  by (simp add: never_connected_def render_def)

lemma never_connected_step:
  assumes "never_connected s" and "status s \<noteq> CONNECTING"
  shows "never_connected (step e s)" and "never_connected (App_step e s)"
proof -
  from assms have st: "status s \<noteq> ACTIVE" and se: "sessions s = []"
    by (simp_all add: never_connected_def)
  have np: "\<not> in_phase sid ps s" for sid ps
    by (simp add: in_phase_def se)
  have eb: "\<not> App_end_button s"
    using st assms(2) by (simp add: App_end_button_def)
  have en: "never_connected (onended n s)" for n
    using assms(1) by (simp add: never_connected_def onended_def Let_def)
  have ti: "never_connected (timeout s)"
    using se st by (simp add: never_connected_def timeout_def)
  show "never_connected (step e s)"
    unfolding step_def render_never_connected
    using assms(1) st np en ti startCall_never_connected(1) [OF se]
    by (cases e) simp_all
  show "never_connected (App_step e s)"
    using assms(1) st np eb en ti startCall_never_connected(2) [OF se]
    by (cases e) simp_all
qed

lemma active_after_connecting:
  assumes "f = step \<or> f = App_step"
    and "never_connected s" and "statuses f es s = pre @ ACTIVE # post"
  shows "CONNECTING \<in> set pre"
  using assms(2,3)
proof (induction es arbitrary: s pre)
  case Nil
  then show ?case by (cases pre) (simp_all add: never_connected_def)
next
  case (Cons e es)
  from Cons.prems obtain pre' where pre: "pre = status s # pre'"
    and rest: "statuses f es (f e s) = pre' @ ACTIVE # post"
    by (cases pre) (auto simp: never_connected_def)
  show ?case
  proof (cases "status s = CONNECTING")
    case True
    then show ?thesis by (simp add: pre)
  next
    case False
    then have "never_connected (f e s)"
      using assms(1) never_connected_step [OF Cons.prems(1)] by auto
    then have "CONNECTING \<in> set pre'" using rest by (rule Cons.IH)
    then show ?thesis by (simp add: pre)
  qed
qed

lemma initial_never_connected: "never_connected initial"
  by (simp add: never_connected_def initial_def)

text \<open>
  C8: at most one session is to be live at a time. In the
  application the end button is enabled while the status is \<^verbatim>\<open>CONNECTING\<close>, and
  \<^verbatim>\<open>cleanupCall\<close> closes only a session that \<^verbatim>\<open>sessionRef\<close> already holds: start, end,
  start issues two \<^verbatim>\<open>connect\<close> calls with no \<^verbatim>\<open>close\<close> between them, and when both
  transports open two sessions are live. In the page the timeout of a hang-up sets the
  status to \<^verbatim>\<open>IDLE\<close> during the next call's \<^verbatim>\<open>CONNECTING\<close>, the start button comes
  back, and a third start makes a second session live as well.
\<close>

theorem second_session_while_first_pending:
  "statuses App_step [ClickStart Connecting, ClickEndCall, ClickStart Connecting, Open 0, Open 1]
      initial = [IDLE, CONNECTING, ENDED, CONNECTING, ACTIVE, ACTIVE]
   \<and> calls (App_run [ClickStart Connecting, ClickEndCall, ClickStart Connecting] initial) =
       [Connect, ContextClose 0, ContextClose 1, Connect]
   \<and> live_sessions (App_run [ClickStart Connecting, ClickEndCall, ClickStart Connecting,
        Open 0, Open 1] initial) = [0, 1]
   \<and> statuses step [ClickStart Connecting, Open 0, ClickEndCall, ClickStart Connecting, Timeout,
        ClickStart Connecting, Open 1, Open 2] initial =
       [IDLE, CONNECTING, ACTIVE, ENDED, CONNECTING, IDLE, CONNECTING, ACTIVE, ACTIVE]
   \<and> live_sessions (run [ClickStart Connecting, Open 0, ClickEndCall, ClickStart Connecting,
        Timeout, ClickStart Connecting, Open 1, Open 2] initial) = [1, 2]"
  by (simp add: App_run_def run_def step_def initial_def handlers live_sessions_def upt_rec)

text \<open>
  C9: a transport error is to move the call to the \<^verbatim>\<open>ERROR\<close> state.
  \<^verbatim>\<open>onerror\<close> sets that status and then calls \<^verbatim>\<open>cleanupCall\<close>, which sets
  \<^verbatim>\<open>ENDED\<close>: the status after the handler is \<^verbatim>\<open>ENDED\<close>, in the page (which keeps its
  message) and in the application, and the timeout makes it \<^verbatim>\<open>IDLE\<close>. The start
  button is rendered in that state. The status is still \<^verbatim>\<open>ERROR\<close> after the handler
  only when \<^verbatim>\<open>close()\<close> of the session raises inside \<^verbatim>\<open>cleanupCall\<close> and ends it
  before the status is set.
\<close>

theorem transport_error_ends_in_ENDED:
  "status (onerror s) = (if close_raises s then ERROR else ENDED)
   \<and> status (App_onerror s) = (if close_raises s then ERROR else ENDED)
   \<and> error (onerror s) = ''Connection error. Please try again.''
   \<and> start_button (onerror s) \<and> App_start_button (App_onerror s) = (\<not> close_raises s)
   \<and> statuses step [ClickStart Connecting, Open 0, TransportError 0, Timeout] initial =
       [IDLE, CONNECTING, ACTIVE, ENDED, IDLE]
   \<and> statuses App_step [ClickStart Connecting, Open 0, TransportError 0, Timeout] initial =
       [IDLE, CONNECTING, ACTIVE, ENDED, IDLE]"
proof -
  let ?p = "s\<lparr>error := ''Connection error. Please try again.'', status := ERROR\<rparr>"
  let ?a = "s\<lparr>status := ERROR\<rparr>"
  have c: "close_raises ?p = close_raises s" "close_raises ?a = close_raises s"
    by (simp_all add: close_raises_def split: option.splits)
  have "status (onerror s) = (if close_raises s then ERROR else ENDED)
   \<and> status (App_onerror s) = (if close_raises s then ERROR else ENDED)
   \<and> error (onerror s) = ''Connection error. Please try again.''
   \<and> start_button (onerror s) \<and> App_start_button (App_onerror s) = (\<not> close_raises s)"
  proof (cases "close_raises s")
    case True
    then show ?thesis
      using cleanupCall_raises [of ?p] cleanupCall_raises [of ?a]
      by (simp add: c onerror_def App_onerror_def start_button_def App_start_button_def)
  next
    case False
    obtain p' a' where r: "release ?p = Inr p'" "release ?a = Inr a'"
      using False release_total(2) [of ?p] release_total(2) [of ?a] by (auto simp: c)
    show ?thesis
      using False release_returns(10) [OF r(1)]
      by (simp add: onerror_def App_onerror_def cleanupCall_def App_cleanupCall_def r
            start_button_def App_start_button_def)
  qed
  moreover have "statuses step [ClickStart Connecting, Open 0, TransportError 0, Timeout] initial =
       [IDLE, CONNECTING, ACTIVE, ENDED, IDLE]
   \<and> statuses App_step [ClickStart Connecting, Open 0, TransportError 0, Timeout] initial =
       [IDLE, CONNECTING, ACTIVE, ENDED, IDLE]"
    by (simp add: step_def initial_def handlers)
  ultimately show ?thesis by simp
qed

end
